theory Spec2Isabelle
  imports Main "HOL-Library.Word"
begin

section \<open>Tilesheet composer (scripts/combinesheets.py)\<close>

text \<open>
  A shallow embedding of \<^verbatim>\<open>scripts/combinesheets.py\<close>: the classes \<^verbatim>\<open>TileSheet\<close> and
  \<^verbatim>\<open>Composer\<close> and the event branches of \<^verbatim>\<open>Composer.run\<close>. Python integers are \<open>int\<close>,
  \<open>//\<close> is floor division (\<open>div\<close> on \<open>int\<close>) and raises on a zero divisor, exceptions
  are values of the type \<open>error\<close>, and each method takes the composer and returns the
  updated one.
\<close>

subsection \<open>Surfaces of the graphics library\<close>

text \<open>
  The program keeps its images in library surfaces created with the per-pixel alpha
  flag. A surface is its width, its height and an RGBA value of four bytes for every
  coordinate; only the coordinates inside \<open>[0, sw) \<times> [0, sh)\<close> belong to the image.

  A surface is an object, and the program tells objects apart: the selected tile is one
  of the palette's tile objects, found again with \<^verbatim>\<open>is\<close>. The field \<open>sid\<close> names the
  object. A loaded image brings its name with it (every load makes a new object); a
  surface that the program creates is named after the place that creates it: the tile
  of a sheet after the sheet's image and its column and row, the canvas after the base
  image, the tile lifted from the canvas after its cell. Writing into a surface keeps
  its name.
\<close>

datatype error =
  ZeroDivisionError | PygameError | TypeError | ValueError | AttributeError | IndexError | LoadError

type_synonym pixel = "8 word \<times> 8 word \<times> 8 word \<times> 8 word"

datatype ident = Loaded nat | Tile ident int int | Canvas ident | Lifted int int

record surface =
  sw :: int
  sh :: int
  spix :: "int \<times> int \<Rightarrow> pixel"
  sid :: ident

definition transparent :: pixel where
  "transparent = (0, 0, 0, 0)"

definition alpha :: "pixel \<Rightarrow> 8 word" where
  "alpha p = (case p of (r, g, b, a) \<Rightarrow> a)"

definition in_bounds :: "surface \<Rightarrow> int \<times> int \<Rightarrow> bool" where
  "in_bounds s p = (case p of (x, y) \<Rightarrow> 0 \<le> x \<and> x < sw s \<and> 0 \<le> y \<and> y < sh s)"

text \<open>
  The library reads a Python integer into a C \<^verbatim>\<open>int\<close>: a value outside the range of a C
  \<^verbatim>\<open>long\<close> (64 bits) is refused, any other value is cut down to its low 32 bits, read as
  a signed number. So \<open>2^31\<close> is read as \<open>- 2^31\<close>, \<open>2^32\<close> as \<open>0\<close> and \<open>16 - 2^32\<close> as \<open>16\<close>.
\<close>

definition pg_IntFromObj :: "int \<Rightarrow> int option" where
  "pg_IntFromObj v =
     (if - (2 ^ 63) \<le> v \<and> v < 2 ^ 63 then Some ((v + 2 ^ 31) mod 2 ^ 32 - 2 ^ 31) else None)"

text \<open>The creation of a surface from sizes that are C integers: every pixel starts as
  (0,0,0,0); a negative size is refused with \<^verbatim>\<open>pygame.error\<close>. That the machine may
  have no memory for a large surface is not part of the model.\<close>

definition surface_of_size :: "ident \<Rightarrow> int \<Rightarrow> int \<Rightarrow> error + surface" where
  "surface_of_size k w h =
     (if w < 0 \<or> h < 0 then Inl PygameError
      else Inr \<lparr>sw = w, sh = h, spix = (\<lambda>p. transparent), sid = k\<rparr>)"

text \<open>\<^verbatim>\<open>pygame.Surface((w, h), pygame.SRCALPHA)\<close> on Python integers: the two sizes are
  read into C integers first (\<^verbatim>\<open>ValueError\<close> when one is refused).\<close>

definition new_surface :: "ident \<Rightarrow> int \<Rightarrow> int \<Rightarrow> error + surface" where
  "new_surface k w h =
     (case pg_IntFromObj w of
        None \<Rightarrow> Inl ValueError
      | Some w' \<Rightarrow>
          (case pg_IntFromObj h of
             None \<Rightarrow> Inl ValueError
           | Some h' \<Rightarrow> surface_of_size k w' h'))"

text \<open>\<^verbatim>\<open>pygame.Rect(x, y, w, h)\<close> on Python integers: width and height are read into C
  integers (\<^verbatim>\<open>TypeError\<close> when one is refused). At every call in the program \<open>x\<close> and \<open>y\<close>
  are coordinates inside a surface, C integers already, and are passed on as they are.\<close>

definition pg_Rect :: "int \<Rightarrow> int \<Rightarrow> int \<Rightarrow> int \<Rightarrow> error + (int \<times> int \<times> int \<times> int)" where
  "pg_Rect x y w h =
     (case pg_IntFromObj w of
        None \<Rightarrow> Inl TypeError
      | Some w' \<Rightarrow>
          (case pg_IntFromObj h of
             None \<Rightarrow> Inl TypeError
           | Some h' \<Rightarrow> Inr (x, y, w', h')))"

text \<open>The library's blend of a source pixel with per-pixel alpha onto a destination
  pixel with per-pixel alpha, computed on C integers (\<^verbatim>\<open>>> 8\<close> is the arithmetic
  shift, \<^verbatim>\<open>/ 255\<close> divides non-negative values) and stored back into bytes.\<close>

definition ALPHA_BLEND_COMP :: "int \<Rightarrow> int \<Rightarrow> int \<Rightarrow> int" where
  "ALPHA_BLEND_COMP sC dC sA = ((sC - dC) * sA + sC) div 256 + dC"

definition ALPHA_BLEND :: "pixel \<Rightarrow> pixel \<Rightarrow> pixel" where
  "ALPHA_BLEND s d =
     (case s of (sR, sG, sB, sA) \<Rightarrow>
      case d of (dR, dG, dB, dA) \<Rightarrow>
        if dA \<noteq> 0 then
          (word_of_int (ALPHA_BLEND_COMP (uint sR) (uint dR) (uint sA)),
           word_of_int (ALPHA_BLEND_COMP (uint sG) (uint dG) (uint sA)),
           word_of_int (ALPHA_BLEND_COMP (uint sB) (uint dB) (uint sA)),
           word_of_int (uint sA + uint dA - (uint sA * uint dA) div 255))
        else (sR, sG, sB, sA))"

text \<open>\<^verbatim>\<open>dst.blit(src, (dx, dy), pygame.Rect(ax, ay, aw, ah))\<close>: the area is clipped to the
  source, the target to the destination, and every pixel that remains is blended.\<close>

definition blit_area :: "surface \<Rightarrow> surface \<Rightarrow> int \<times> int \<Rightarrow> int \<times> int \<times> int \<times> int \<Rightarrow> surface" where
  "blit_area dst src dest area =
     (case dest of (dx, dy) \<Rightarrow>
      case area of (ax, ay, aw, ah) \<Rightarrow>
        dst\<lparr>spix := (\<lambda>p. case p of (x, y) \<Rightarrow>
          let u = x - dx + ax; v = y - dy + ay in
          if in_bounds dst (x, y) \<and> ax \<le> u \<and> u < ax + aw \<and> ay \<le> v \<and> v < ay + ah
               \<and> in_bounds src (u, v)
          then ALPHA_BLEND (spix src (u, v)) (spix dst (x, y))
          else spix dst (x, y))\<rparr>)"

text \<open>\<^verbatim>\<open>dst.blit(src, (dx, dy))\<close>: the area is the whole source.\<close>

definition blit :: "surface \<Rightarrow> surface \<Rightarrow> int \<times> int \<Rightarrow> surface" where
  "blit dst src dest = blit_area dst src dest (0, 0, sw src, sh src)"

text \<open>\<^verbatim>\<open>s.fill(color, pygame.Rect(rx, ry, rw, rh))\<close>: the pixels of the rectangle that lie
  on the surface are set to the colour, alpha included.\<close>

definition fill :: "surface \<Rightarrow> pixel \<Rightarrow> int \<times> int \<times> int \<times> int \<Rightarrow> surface" where
  "fill s color rect =
     (case rect of (rx, ry, rw, rh) \<Rightarrow>
        s\<lparr>spix := (\<lambda>p. case p of (x, y) \<Rightarrow>
          if in_bounds s (x, y) \<and> rx \<le> x \<and> x < rx + rw \<and> ry \<le> y \<and> y < ry + rh
          then color else spix s (x, y))\<rparr>)"

text \<open>\<^verbatim>\<open>s.get_bounding_rect()\<close> is the smallest rectangle holding every pixel of alpha at
  least 1; it has positive width and height exactly when there is such a pixel.\<close>

definition has_visible_pixel :: "surface \<Rightarrow> bool" where
  "has_visible_pixel s = (\<exists>x\<in>{0..<sw s}. \<exists>y\<in>{0..<sh s}. alpha (spix s (x, y)) \<noteq> 0)"

text \<open>Two surfaces show the same image: same size, same pixel at every coordinate of it.\<close>

definition same_image :: "surface \<Rightarrow> surface \<Rightarrow> bool" where
  "same_image s t =
     (sw s = sw t \<and> sh s = sh t \<and>
      (\<forall>x\<in>{0..<sw s}. \<forall>y\<in>{0..<sh s}. spix s (x, y) = spix t (x, y)))"

subsection \<open>Defaults\<close>

definition TILE_SIZE :: int where "TILE_SIZE = 16"
definition PALETTE_COLS :: int where "PALETTE_COLS = 8"
definition PALETTE_THUMB :: int where "PALETTE_THUMB = 32"

definition py_floordiv :: "int \<Rightarrow> int \<Rightarrow> error + int" where
  "py_floordiv a b = (if b = 0 then Inl ZeroDivisionError else Inr (a div b))"

text \<open>\<^verbatim>\<open>range(n)\<close>\<close>

definition range_py :: "int \<Rightarrow> int list" where
  "range_py n = [0..n - 1]"

subsection \<open>TileSheet\<close>

record tilesheet =
  ts_path :: string
  ts_tile_size :: int
  ts_surface :: surface
  ts_width :: int
  ts_height :: int
  ts_cols :: int
  ts_rows :: int
  ts_tiles :: "surface list"

text \<open>The body of the inner loop of \<^verbatim>\<open>_slice_tiles\<close> at column \<open>x\<close> and row \<open>y\<close>: the
  rectangle, the new tile surface, the blit of the rectangle into it.\<close>

definition slice_tile :: "surface \<Rightarrow> int \<Rightarrow> int \<times> int \<Rightarrow> error + surface" where
  "slice_tile src t xy =
     (case xy of (x, y) \<Rightarrow>
      case pg_Rect (x * t) (y * t) t t of
        Inl e \<Rightarrow> Inl e
      | Inr rect \<Rightarrow>
          (case new_surface (Tile (sid src) x y) t t of
             Inl e \<Rightarrow> Inl e
           | Inr tile_surf \<Rightarrow> Inr (blit_area tile_surf src (0, 0) rect)))"

text \<open>Running a loop body over the iterations in order, appending each result; the
  first exception ends the loop.\<close>

fun append_each :: "('a \<Rightarrow> error + 'b) \<Rightarrow> 'a list \<Rightarrow> error + 'b list" where
  "append_each f [] = Inr []"
| "append_each f (i # is) =
     (case f i of
        Inl e \<Rightarrow> Inl e
      | Inr v \<Rightarrow> (case append_each f is of Inl e \<Rightarrow> Inl e | Inr vs \<Rightarrow> Inr (v # vs)))"

text \<open>\<^verbatim>\<open>for y in range(rows): for x in range(cols):\<close> visits these pairs in this order.\<close>

definition loop_cells :: "int \<Rightarrow> int \<Rightarrow> (int \<times> int) list" where
  "loop_cells rows cols = concat (map (\<lambda>y. map (\<lambda>x. (x, y)) (range_py cols)) (range_py rows))"

definition slice_tiles :: "surface \<Rightarrow> int \<Rightarrow> int \<Rightarrow> int \<Rightarrow> error + surface list" where
  "slice_tiles src t rows cols = append_each (slice_tile src t) (loop_cells rows cols)"

text \<open>\<^verbatim>\<open>TileSheet(path, tile_size)\<close>; \<open>loaded\<close> is what
  \<^verbatim>\<open>pygame.image.load(path).convert_alpha()\<close> gives: a surface or an exception.\<close>

definition TileSheet_init :: "string \<Rightarrow> error + surface \<Rightarrow> int \<Rightarrow> error + tilesheet" where
  "TileSheet_init path loaded tile_size =
     (case loaded of
        Inl e \<Rightarrow> Inl e
      | Inr s \<Rightarrow>
          (case py_floordiv (sw s) tile_size of
             Inl e \<Rightarrow> Inl e
           | Inr qc \<Rightarrow>
               (case py_floordiv (sh s) tile_size of
                  Inl e \<Rightarrow> Inl e
                | Inr qr \<Rightarrow>
                    (case slice_tiles s tile_size (max 1 qr) (max 1 qc) of
                       Inl e \<Rightarrow> Inl e
                     | Inr tiles \<Rightarrow>
                         Inr \<lparr>ts_path = path, ts_tile_size = tile_size, ts_surface = s,
                              ts_width = sw s, ts_height = sh s,
                              ts_cols = max 1 qc, ts_rows = max 1 qr,
                              ts_tiles = tiles\<rparr>))))"

subsection \<open>Composer\<close>

text \<open>
  \<^verbatim>\<open>self.tile_size\<close> is set to \<^verbatim>\<open>TILE_SIZE\<close> when the composer is made and nothing
  assigns it again, so it is a constant of the composer and not a part of its state.
  Sizes and coordinates that the composer hands to the library are this constant and
  numbers read from its surfaces, C integers that the library reads unchanged.
\<close>

record composer =
  base_sheet :: "tilesheet option"
  canvas_surface :: "surface option"
  palette_sheets :: "tilesheet list"
  palette_index :: int
  selected_tile :: "surface option"
  canvas_selected_tile :: "surface option"
  canvas_selected_orig :: "(int \<times> int) option"
  canvas_dragging :: bool
  canvas_drag_mouse :: "int \<times> int"
  grid_visible :: bool
  palette_scroll :: int
  running :: bool
  win_w :: int
  win_h :: int

definition tile_size :: "composer \<Rightarrow> int" where
  "tile_size c = TILE_SIZE"

definition Composer_init :: composer where
  "Composer_init =
     \<lparr>base_sheet = None, canvas_surface = None, palette_sheets = [],
      palette_index = 0, selected_tile = None, canvas_selected_tile = None,
      canvas_selected_orig = None, canvas_dragging = False, canvas_drag_mouse = (0, 0),
      grid_visible = True, palette_scroll = 0, running = True, win_w = 800, win_h = 600\<rparr>"

definition resize_window_for_canvas :: "composer \<Rightarrow> composer" where
  "resize_window_for_canvas c =
     (case canvas_surface c of
        None \<Rightarrow> c
      | Some cv \<Rightarrow>
          c\<lparr>win_w := sw cv + (PALETTE_THUMB * PALETTE_COLS + 20), win_h := max (sh cv) 400\<rparr>)"

text \<open>\<^verbatim>\<open>open_base\<close>, with the path the dialog gave (empty when it was cancelled) and the
  result of loading it. The first component of the result is the error shown to the user
  in the message box; an exception outside the \<^verbatim>\<open>try\<close> leaves the method. The sizes of
  the canvas are \<^verbatim>\<open>ts.width\<close> and \<^verbatim>\<open>ts.height\<close>, read from the loaded surface.\<close>

definition open_base :: "composer \<Rightarrow> string \<Rightarrow> error + surface \<Rightarrow> error + (error option \<times> composer)" where
  "open_base c path loaded =
     (if path = [] then Inr (None, c)
      else case TileSheet_init path loaded (tile_size c) of
        Inl e \<Rightarrow> Inr (Some e, c)
      | Inr ts \<Rightarrow>
          (case surface_of_size (Canvas (sid (ts_surface ts))) (ts_width ts) (ts_height ts) of
             Inl e \<Rightarrow> Inl e
           | Inr blank \<Rightarrow>
               Inr (None, resize_window_for_canvas
                     (c\<lparr>base_sheet := Some ts,
                        canvas_surface := Some (blit blank (ts_surface ts) (0, 0))\<rparr>))))"

text \<open>The loop of \<^verbatim>\<open>add_palette_sheet\<close> over the chosen paths, each with the result of
  loading it; the errors are the ones shown to the user.\<close>

fun add_sheets :: "composer \<Rightarrow> (string \<times> (error + surface)) list \<Rightarrow> error list \<times> composer" where
  "add_sheets c [] = ([], c)"
| "add_sheets c ((p, loaded) # rest) =
     (case TileSheet_init p loaded (tile_size c) of
        Inl e \<Rightarrow> (case add_sheets c rest of (es, c') \<Rightarrow> (e # es, c'))
      | Inr ts \<Rightarrow> add_sheets (c\<lparr>palette_sheets := palette_sheets c @ [ts]\<rparr>) rest)"

definition add_palette_sheet :: "composer \<Rightarrow> (string \<times> (error + surface)) list \<Rightarrow> error list \<times> composer" where
  "add_palette_sheet c paths =
     (if paths = [] then ([], c)
      else case add_sheets c paths of (es, c1) \<Rightarrow>
        let c2 = (if length (palette_sheets c1) > 0
                  then c1\<lparr>palette_index := min (palette_index c1) (int (length (palette_sheets c1)) - 1)\<rparr>
                  else c1)
        in (es, resize_window_for_canvas c2))"

text \<open>The tiles of all palette sheets, in sheet order.\<close>

definition all_tiles :: "composer \<Rightarrow> surface list" where
  "all_tiles c = concat (map ts_tiles (palette_sheets c))"

definition select_tile_from_palette_coords :: "composer \<Rightarrow> int \<Rightarrow> int \<Rightarrow> bool \<times> composer" where
  "select_tile_from_palette_coords c mx my =
     (case canvas_surface c of
        None \<Rightarrow> (False, c)
      | Some cv \<Rightarrow>
          let px = mx - sw cv - 10; py = my - 10 in
          if px < 0 \<or> py < 0 then (False, c)
          else
            let col = px div PALETTE_THUMB;
                row = py div PALETTE_THUMB + palette_scroll c;
                idx = row * PALETTE_COLS + col;
                tiles = all_tiles c
            in if 0 \<le> idx \<and> idx < int (length tiles)
               then (True, c\<lparr>selected_tile := Some (tiles ! nat idx)\<rparr>)
               else (False, c))"

definition get_canvas_cell_pos :: "composer \<Rightarrow> int \<Rightarrow> int \<Rightarrow> error + (int \<times> int) option" where
  "get_canvas_cell_pos c mx my =
     (case canvas_surface c of
        None \<Rightarrow> Inr None
      | Some cv \<Rightarrow>
          if mx < 0 \<or> my < 0 then Inr None
          else if mx \<ge> sw cv \<or> my \<ge> sh cv then Inr None
          else (case py_floordiv mx (tile_size c) of
                  Inl e \<Rightarrow> Inl e
                | Inr qx \<Rightarrow>
                    (case py_floordiv my (tile_size c) of
                       Inl e \<Rightarrow> Inl e
                     | Inr qy \<Rightarrow> Inr (Some (qx * tile_size c, qy * tile_size c)))))"

definition get_tile_surface_from_canvas :: "composer \<Rightarrow> int \<Rightarrow> int \<Rightarrow> error + surface" where
  "get_tile_surface_from_canvas c tx ty =
     (case new_surface (Lifted tx ty) (tile_size c) (tile_size c) of
        Inl e \<Rightarrow> Inl e
      | Inr surf \<Rightarrow>
          (case canvas_surface c of
             None \<Rightarrow> Inl TypeError
           | Some cv \<Rightarrow> Inr (blit_area surf cv (0, 0) (tx, ty, tile_size c, tile_size c))))"

definition is_surface_nonempty :: "surface \<Rightarrow> bool" where
  "is_surface_nonempty surf = has_visible_pixel surf"

definition place_tile_on_canvas :: "composer \<Rightarrow> int \<Rightarrow> int \<Rightarrow> error + composer" where
  "place_tile_on_canvas c mx my =
     (case canvas_surface c of
        None \<Rightarrow> Inr c
      | Some cv \<Rightarrow>
          (case selected_tile c of
             None \<Rightarrow> Inr c
           | Some sel \<Rightarrow>
               (case py_floordiv mx (tile_size c) of
                  Inl e \<Rightarrow> Inl e
                | Inr qx \<Rightarrow>
                    (case py_floordiv my (tile_size c) of
                       Inl e \<Rightarrow> Inl e
                     | Inr qy \<Rightarrow>
                         let tx = qx * tile_size c; ty = qy * tile_size c in
                         if tx < 0 \<or> ty < 0 then Inr c
                         else if tx \<ge> sw cv \<or> ty \<ge> sh cv then Inr c
                         else Inr (c\<lparr>canvas_surface := Some (blit cv sel (tx, ty))\<rparr>)))))"

text \<open>\<^verbatim>\<open>save_canvas\<close>, with the path of the save dialog (empty when cancelled): the
  surface handed to \<^verbatim>\<open>pygame.image.save\<close>, if any.\<close>

definition save_canvas :: "composer \<Rightarrow> string \<Rightarrow> surface option" where
  "save_canvas c out =
     (case canvas_surface c of
        None \<Rightarrow> None
      | Some cv \<Rightarrow> if out = [] then None else Some cv)"

subsection \<open>The event loop\<close>

text \<open>
  The events that \<^verbatim>\<open>Composer.run\<close> reads. A key event that opens a dialog carries what
  the dialog and the image loader answered; the erase key carries the pointer position
  that \<^verbatim>\<open>pygame.mouse.get_pos()\<close> returns while it is handled.
\<close>

definition K_1 :: int where "K_1 = 49"
definition K_9 :: int where "K_9 = 57"

datatype event =
    QUIT
  | VIDEORESIZE int int
  | KEY_o string "error + surface"
  | KEY_a "(string \<times> (error + surface)) list"
  | KEY_s string
  | KEY_z
  | KEY_quit
  | KEY_number int
  | KEY_x "int \<times> int"
  | MOUSEBUTTONDOWN int "int \<times> int"
  | MOUSEMOTION "int \<times> int"
  | MOUSEBUTTONUP int "int \<times> int"

text \<open>\<^verbatim>\<open>self.palette_sheets[self.palette_index].tiles[0]\<close>\<close>

definition first_tile_of_sheet :: "composer \<Rightarrow> error + surface" where
  "first_tile_of_sheet c =
     (let i = palette_index c; n = int (length (palette_sheets c));
          j = (if i < 0 then n + i else i)
      in if 0 \<le> j \<and> j < n
         then (case ts_tiles (palette_sheets c ! nat j) of
                 [] \<Rightarrow> Inl IndexError
               | t # rest \<Rightarrow> Inr t)
         else Inl IndexError)"

definition on_key_number :: "composer \<Rightarrow> int \<Rightarrow> error + composer" where
  "on_key_number c key =
     (if K_1 \<le> key \<and> key \<le> K_9 then
        let idx = key - K_1 in
        if idx < int (length (palette_sheets c)) then
          let c1 = c\<lparr>palette_index := idx\<rparr> in
          if palette_sheets c1 \<noteq> [] then
            (case first_tile_of_sheet c1 of
               Inl e \<Rightarrow> Inl e
             | Inr t \<Rightarrow> Inr (c1\<lparr>selected_tile := Some t\<rparr>))
          else Inr c1
        else Inr c
      else Inr c)"

definition on_key_x :: "composer \<Rightarrow> int \<times> int \<Rightarrow> error + composer" where
  "on_key_x c pos =
     (case pos of (mx, my) \<Rightarrow>
      case get_canvas_cell_pos c mx my of
        Inl e \<Rightarrow> Inl e
      | Inr None \<Rightarrow> Inr c
      | Inr (Some (tx, ty)) \<Rightarrow>
          (case canvas_surface c of
             None \<Rightarrow> Inl AttributeError
           | Some cv \<Rightarrow>
               Inr (c\<lparr>canvas_surface :=
                        Some (fill cv transparent (tx, ty, tile_size c, tile_size c))\<rparr>)))"

definition on_left_down_canvas :: "composer \<Rightarrow> int \<times> int \<Rightarrow> error + composer" where
  "on_left_down_canvas c pos =
     (case pos of (mx, my) \<Rightarrow>
      case get_canvas_cell_pos c mx my of
        Inl e \<Rightarrow> Inl e
      | Inr None \<Rightarrow> Inr c
      | Inr (Some (tx, ty)) \<Rightarrow>
          (case get_tile_surface_from_canvas c tx ty of
             Inl e \<Rightarrow> Inl e
           | Inr tile_surf \<Rightarrow>
               if is_surface_nonempty tile_surf then
                 (case canvas_surface c of
                    None \<Rightarrow> Inl AttributeError
                  | Some cv \<Rightarrow>
                      Inr (c\<lparr>canvas_selected_tile := Some tile_surf,
                             canvas_selected_orig := Some (tx, ty),
                             canvas_dragging := True,
                             canvas_drag_mouse := (mx, my),
                             canvas_surface :=
                               Some (fill cv transparent (tx, ty, tile_size c, tile_size c))\<rparr>))
               else place_tile_on_canvas c mx my))"

definition on_mouse_down :: "composer \<Rightarrow> int \<Rightarrow> int \<times> int \<Rightarrow> error + composer" where
  "on_mouse_down c button pos =
     (if button = 1 then
        (if (case canvas_surface c of None \<Rightarrow> False | Some cv \<Rightarrow> fst pos > sw cv)
         then Inr (snd (select_tile_from_palette_coords c (fst pos) (snd pos)))
         else on_left_down_canvas c pos)
      else if button = 4 then Inr (c\<lparr>palette_scroll := max 0 (palette_scroll c - 1)\<rparr>)
      else if button = 5 then Inr (c\<lparr>palette_scroll := palette_scroll c + 1\<rparr>)
      else Inr c)"

text \<open>The blit of the held tile when the button is released.\<close>

definition drop_blit :: "composer \<Rightarrow> int \<times> int \<Rightarrow> error + composer" where
  "drop_blit c dest =
     (case canvas_surface c of
        None \<Rightarrow> Inl AttributeError
      | Some cv \<Rightarrow>
          (case canvas_selected_tile c of
             None \<Rightarrow> Inl TypeError
           | Some held \<Rightarrow> Inr (c\<lparr>canvas_surface := Some (blit cv held dest)\<rparr>)))"

definition clear_drag_state :: "composer \<Rightarrow> composer" where
  "clear_drag_state c =
     c\<lparr>canvas_selected_tile := None, canvas_selected_orig := None, canvas_dragging := False\<rparr>"

definition on_mouse_up :: "composer \<Rightarrow> int \<Rightarrow> int \<times> int \<Rightarrow> error + composer" where
  "on_mouse_up c button pos =
     (if button = 1 \<and> canvas_dragging c then
        (case get_canvas_cell_pos c (fst pos) (snd pos) of
           Inl e \<Rightarrow> Inl e
         | Inr (Some cell) \<Rightarrow>
             (case drop_blit c cell of
                Inl e \<Rightarrow> Inl e
              | Inr c1 \<Rightarrow> Inr (clear_drag_state c1))
         | Inr None \<Rightarrow>
             (case canvas_selected_orig c of
                None \<Rightarrow> Inl TypeError
              | Some orig \<Rightarrow>
                  (case drop_blit c orig of
                     Inl e \<Rightarrow> Inl e
                   | Inr c1 \<Rightarrow> Inr (clear_drag_state c1))))
      else Inr c)"

fun handle_event :: "composer \<Rightarrow> event \<Rightarrow> error + composer" where
  "handle_event c QUIT = Inr (c\<lparr>running := False\<rparr>)"
| "handle_event c (VIDEORESIZE w h) = Inr (c\<lparr>win_w := w, win_h := h\<rparr>)"
| "handle_event c (KEY_o path loaded) =
     (case open_base c path loaded of Inl e \<Rightarrow> Inl e | Inr (shown, c1) \<Rightarrow> Inr c1)"
| "handle_event c (KEY_a paths) = Inr (snd (add_palette_sheet c paths))"
| "handle_event c (KEY_s out) = Inr c"
| "handle_event c KEY_z = Inr (c\<lparr>grid_visible := \<not> grid_visible c\<rparr>)"
| "handle_event c KEY_quit = Inr (c\<lparr>running := False\<rparr>)"
| "handle_event c (KEY_number key) = on_key_number c key"
| "handle_event c (KEY_x pos) = on_key_x c pos"
| "handle_event c (MOUSEBUTTONDOWN button pos) = on_mouse_down c button pos"
| "handle_event c (MOUSEMOTION pos) =
     Inr (if canvas_dragging c then c\<lparr>canvas_drag_mouse := pos\<rparr> else c)"
| "handle_event c (MOUSEBUTTONUP button pos) = on_mouse_up c button pos"

text \<open>The events of the queue are handled in order; an exception ends the program.\<close>

fun handle_events :: "composer \<Rightarrow> event list \<Rightarrow> error + composer" where
  "handle_events c [] = Inr c"
| "handle_events c (e # es) =
     (case handle_event c e of Inl err \<Rightarrow> Inl err | Inr c1 \<Rightarrow> handle_events c1 es)"

subsection \<open>Example images and observations\<close>

definition red :: pixel where "red = (255, 0, 0, 255)"
definition blue :: pixel where "blue = (0, 0, 255, 255)"
definition half_red :: pixel where "half_red = (255, 0, 0, 128)"
definition black :: pixel where "black = (0, 0, 0, 255)"

text \<open>A sheet of 32 by 16 pixels: the left cell holds one red pixel in its corner, the
  right cell is blue all over.\<close>

definition two_cells :: surface where
  "two_cells =
     \<lparr>sw = 32, sh = 16,
      spix = (\<lambda>p. case p of (x, y) \<Rightarrow>
                if x < 16 then (if x = 0 \<and> y = 0 then red else transparent) else blue),
      sid = Loaded 0\<rparr>"

text \<open>The pixel of the canvas at a coordinate, after a run that did not raise.\<close>

definition canvas_pixel :: "error + composer \<Rightarrow> int \<times> int \<Rightarrow> pixel option" where
  "canvas_pixel r p =
     (case r of
        Inl e \<Rightarrow> None
      | Inr c \<Rightarrow> (case canvas_surface c of None \<Rightarrow> None | Some cv \<Rightarrow> Some (spix cv p)))"

text \<open>Whether a tile is held after a run that did not raise.\<close>

definition is_dragging :: "error + composer \<Rightarrow> bool" where
  "is_dragging r = (case r of Inl e \<Rightarrow> False | Inr c \<Rightarrow> canvas_dragging c)"

text \<open>An image of one colour.\<close>

definition solid :: "int \<Rightarrow> int \<Rightarrow> pixel \<Rightarrow> surface" where
  "solid w h p = \<lparr>sw = w, sh = h, spix = (\<lambda>q. p), sid = Loaded 0\<rparr>"

text \<open>A call of \<^verbatim>\<open>place_tile_on_canvas\<close> after a run that did not raise.\<close>

definition then_place :: "error + composer \<Rightarrow> int \<Rightarrow> int \<Rightarrow> error + composer" where
  "then_place r mx my = (case r of Inl e \<Rightarrow> Inl e | Inr c \<Rightarrow> place_tile_on_canvas c mx my)"

text \<open>The pixel of the selected tile at a coordinate, after a run that did not raise.\<close>

definition selected_pixel :: "error + composer \<Rightarrow> int \<times> int \<Rightarrow> pixel option" where
  "selected_pixel r p =
     (case r of
        Inl e \<Rightarrow> None
      | Inr c \<Rightarrow> (case selected_tile c of None \<Rightarrow> None | Some sel \<Rightarrow> Some (spix sel p)))"

text \<open>The number of tiles of a sheet, when its construction did not raise.\<close>

definition tile_count :: "error + tilesheet \<Rightarrow> nat option" where
  "tile_count r = (case r of Inl e \<Rightarrow> None | Inr ts \<Rightarrow> Some (length (ts_tiles ts)))"

text \<open>The number of tiles in the palette, and the answer of a palette click, after a
  run that did not raise.\<close>

definition palette_size :: "error + composer \<Rightarrow> nat option" where
  "palette_size r = (case r of Inl e \<Rightarrow> None | Inr c \<Rightarrow> Some (length (all_tiles c)))"

definition select_after :: "error + composer \<Rightarrow> int \<Rightarrow> int \<Rightarrow> bool option" where
  "select_after r mx my =
     (case r of
        Inl e \<Rightarrow> None
      | Inr c \<Rightarrow> Some (fst (select_tile_from_palette_coords c mx my)))"

section \<open>Auxiliary lemmas\<close>

lemma tile_size_const [simp]: "tile_size c = 16"
  by (simp add: tile_size_def TILE_SIZE_def)

subsection \<open>Blending and loops\<close>

lemma ALPHA_BLEND_onto_transparent: "alpha d = 0 \<Longrightarrow> ALPHA_BLEND s d = s"
  by (cases s; cases d) (simp add: ALPHA_BLEND_def alpha_def)

lemma blend_comp_opaque:
  assumes "0 \<le> s" "s < 256" "0 \<le> d" "d < 256"
  shows "ALPHA_BLEND_COMP s d 255 = s"
proof -
  have "(s - d) * 255 + s = (s - d) * 256 + d" by (simp add: algebra_simps)
  then have "((s - d) * 255 + s) div 256 = (s - d) + d div 256"
    by simp
  with assms show ?thesis by (simp add: ALPHA_BLEND_COMP_def)
qed

lemma blend_comp_clear:
  assumes "0 \<le> s" "s < 256"
  shows "ALPHA_BLEND_COMP s d 0 = d"
  using assms by (simp add: ALPHA_BLEND_COMP_def)

lemma uint8_bounds: "0 \<le> uint (w :: 8 word) \<and> uint w < 256"
  using uint_lt2p [of w] by simp

lemma ALPHA_BLEND_opaque_src: "alpha s = 255 \<Longrightarrow> ALPHA_BLEND s d = s"
  apply (cases s; cases d)
  apply (simp add: ALPHA_BLEND_def alpha_def blend_comp_opaque uint8_bounds)
  done

lemma ALPHA_BLEND_clear_src: "alpha s = 0 \<Longrightarrow> alpha d \<noteq> 0 \<Longrightarrow> ALPHA_BLEND s d = d"
  apply (cases s; cases d)
  apply (simp add: ALPHA_BLEND_def alpha_def blend_comp_clear uint8_bounds)
  done

lemma append_each_all_ok:
  "(\<And>x. x \<in> set xs \<Longrightarrow> f x = Inr (g x)) \<Longrightarrow> append_each f xs = Inr (map g xs)"
  by (induction xs) auto

lemma length_range_py: "length (range_py n) = nat n"
  by (simp add: range_py_def)

lemma nth_range_py: "k < nat n \<Longrightarrow> range_py n ! k = int k"
  by (simp add: range_py_def nth_upto)

lemma nth_concat_rows:
  assumes "\<And>x. x \<in> set xs \<Longrightarrow> length (f x) = n" "i < length xs" "j < n"
  shows "concat (map f xs) ! (i * n + j) = f (xs ! i) ! j"
  using assms
proof (induction xs arbitrary: i)
  case Nil then show ?case by simp
next
  case (Cons a xs)
  show ?case
  proof (cases i)
    case 0
    with Cons.prems show ?thesis by (simp add: nth_append)
  next
    case (Suc k)
    with Cons.prems have "concat (map f xs) ! (k * n + j) = f (xs ! k) ! j"
      by (intro Cons.IH) auto
    with Suc Cons.prems show ?thesis by (simp add: nth_append add.assoc)
  qed
qed

lemma length_concat_rows:
  "(\<And>x. x \<in> set xs \<Longrightarrow> length (f x) = n) \<Longrightarrow> length (concat (map f xs)) = length xs * n"
  by (induction xs) auto

lemma length_loop_cells: "length (loop_cells rows cols) = nat rows * nat cols"
  unfolding loop_cells_def
  by (subst length_concat_rows [where n = "nat cols"]) (simp_all add: length_range_py)

lemma nth_loop_cells:
  assumes "0 \<le> row" "row < rows" "0 \<le> col" "col < cols"
  shows "loop_cells rows cols ! nat (row * cols + col) = (col, row)"
proof -
  have idx: "nat (row * cols + col) = nat row * nat cols + nat col"
    using assms by (simp add: nat_add_distrib nat_mult_distrib)
  have "concat (map (\<lambda>y. map (\<lambda>x. (x, y)) (range_py cols)) (range_py rows)) ! (nat row * nat cols + nat col)
        = (map (\<lambda>x. (x, range_py rows ! nat row)) (range_py cols)) ! nat col"
    using assms by (intro nth_concat_rows) (simp_all add: length_range_py)
  also have "\<dots> = (col, row)"
    using assms by (simp add: length_range_py nth_range_py)
  finally show ?thesis by (simp add: loop_cells_def idx)
qed

subsection \<open>Reading Python integers\<close>

lemma pg_IntFromObj_id:
  assumes "- (2 ^ 31) \<le> v" "v < 2 ^ 31"
  shows "pg_IntFromObj v = Some v"
proof -
  have "0 \<le> v + 2 ^ 31" "v + 2 ^ 31 < 2 ^ 32" using assms by simp_all
  then have "(v + 2 ^ 31) mod 2 ^ 32 = v + 2 ^ 31" by (rule mod_pos_pos_trivial)
  then show ?thesis using assms by (simp add: pg_IntFromObj_def)
qed

lemma pg_IntFromObj_negative:
  assumes "- (2 ^ 31) \<le> v" "v < 0" "pg_IntFromObj v = Some e"
  shows "e < 0"
  using assms pg_IntFromObj_id [of v] by simp

lemma pg_IntFromObj_16 [simp]: "pg_IntFromObj 16 = Some 16"
  by (simp add: pg_IntFromObj_def)

lemma tile_size_positive: "0 < tile_size c"
  by (simp add: tile_size_def TILE_SIZE_def)

subsection \<open>Slicing a sheet\<close>

lemma slice_tile_read:
  assumes "pg_IntFromObj t = Some e" "0 \<le> e"
  shows "slice_tile src t (x, y) =
     Inr (blit_area \<lparr>sw = e, sh = e, spix = (\<lambda>p. transparent), sid = Tile (sid src) x y\<rparr> src
            (0, 0) (x * t, y * t, e, e))"
  using assms by (simp add: slice_tile_def pg_Rect_def new_surface_def surface_of_size_def)

lemma slice_tile_ok:
  assumes "0 \<le> t" "t < 2 ^ 31"
  shows "slice_tile src t (x, y) =
     Inr (blit_area \<lparr>sw = t, sh = t, spix = (\<lambda>p. transparent), sid = Tile (sid src) x y\<rparr> src
            (0, 0) (x * t, y * t, t, t))"
  by (rule slice_tile_read) (use assms in \<open>simp_all add: pg_IntFromObj_id\<close>)

lemma slice_tiles_read:
  assumes "pg_IntFromObj t = Some e" "0 \<le> e"
  shows "slice_tiles src t rows cols =
           Inr (map (\<lambda>xy. blit_area \<lparr>sw = e, sh = e, spix = (\<lambda>p. transparent),
                                       sid = Tile (sid src) (fst xy) (snd xy)\<rparr> src (0, 0)
                            (fst xy * t, snd xy * t, e, e)) (loop_cells rows cols))"
  unfolding slice_tiles_def
proof (rule append_each_all_ok)
  fix xy assume "xy \<in> set (loop_cells rows cols)"
  show "slice_tile src t xy =
          Inr (blit_area \<lparr>sw = e, sh = e, spix = (\<lambda>p. transparent),
                           sid = Tile (sid src) (fst xy) (snd xy)\<rparr> src (0, 0)
                 (fst xy * t, snd xy * t, e, e))"
    using slice_tile_read [OF assms, of src "fst xy" "snd xy"] by simp
qed

subsection \<open>Construction of a sheet\<close>

lemma TileSheet_init_read:
  assumes "t \<noteq> 0" "pg_IntFromObj t = Some e" "0 \<le> e"
  shows "TileSheet_init path (Inr src) t =
           Inr \<lparr>ts_path = path, ts_tile_size = t, ts_surface = src,
                ts_width = sw src, ts_height = sh src,
                ts_cols = max 1 (sw src div t), ts_rows = max 1 (sh src div t),
                ts_tiles = map (\<lambda>xy. blit_area \<lparr>sw = e, sh = e, spix = (\<lambda>p. transparent),
                                                   sid = Tile (sid src) (fst xy) (snd xy)\<rparr> src
                                        (0, 0) (fst xy * t, snd xy * t, e, e))
                             (loop_cells (max 1 (sh src div t)) (max 1 (sw src div t)))\<rparr>"
  using assms(1) by (simp add: TileSheet_init_def py_floordiv_def slice_tiles_read [OF assms(2,3)])

lemma TileSheet_init_ok:
  assumes "0 < t" "t < 2 ^ 31"
  shows "TileSheet_init path (Inr src) t =
           Inr \<lparr>ts_path = path, ts_tile_size = t, ts_surface = src,
                ts_width = sw src, ts_height = sh src,
                ts_cols = max 1 (sw src div t), ts_rows = max 1 (sh src div t),
                ts_tiles = map (\<lambda>xy. blit_area \<lparr>sw = t, sh = t, spix = (\<lambda>p. transparent),
                                                   sid = Tile (sid src) (fst xy) (snd xy)\<rparr> src
                                        (0, 0) (fst xy * t, snd xy * t, t, t))
                             (loop_cells (max 1 (sh src div t)) (max 1 (sw src div t)))\<rparr>"
  by (rule TileSheet_init_read) (use assms in \<open>simp_all add: pg_IntFromObj_id\<close>)

lemma append_each_length: "append_each f xs = Inr ys \<Longrightarrow> length ys = length xs"
  by (induction xs arbitrary: ys) (auto split: sum.splits)

lemma append_each_fails:
  "xs \<noteq> [] \<Longrightarrow> (\<And>x. f x = Inl e) \<Longrightarrow> append_each f xs = Inl e"
  by (cases xs) simp_all

lemma loop_cells_nonempty: "1 \<le> rows \<Longrightarrow> 1 \<le> cols \<Longrightarrow> loop_cells rows cols \<noteq> []"
proof -
  assume "1 \<le> rows" "1 \<le> cols"
  then have "0 < length (loop_cells rows cols)" by (simp add: length_loop_cells)
  then show ?thesis by auto
qed

lemma slice_tiles_refused:
  assumes "pg_IntFromObj t = Some e" "e < 0" "1 \<le> rows" "1 \<le> cols"
  shows "slice_tiles src t rows cols = Inl PygameError"
  unfolding slice_tiles_def
proof (rule append_each_fails)
  show "loop_cells rows cols \<noteq> []" using assms by (simp add: loop_cells_nonempty)
  fix xy show "slice_tile src t xy = Inl PygameError"
    using assms
    by (cases xy) (simp add: slice_tile_def pg_Rect_def new_surface_def surface_of_size_def)
qed

lemma TileSheet_init_zero: "TileSheet_init path (Inr src) 0 = Inl ZeroDivisionError"
  by (simp add: TileSheet_init_def py_floordiv_def)

lemma TileSheet_init_refused:
  assumes "t \<noteq> 0" "pg_IntFromObj t = Some e" "e < 0"
  shows "TileSheet_init path (Inr src) t = Inl PygameError"
  using assms by (simp add: TileSheet_init_def py_floordiv_def slice_tiles_refused)

lemma TileSheet_init_negative:
  assumes "- (2 ^ 31) \<le> t" "t < 0"
  shows "TileSheet_init path (Inr src) t = Inl PygameError"
proof (rule TileSheet_init_refused)
  show "t \<noteq> 0" using assms by simp
  show "pg_IntFromObj t = Some t" using assms by (simp add: pg_IntFromObj_id)
  show "t < 0" by (rule assms)
qed

lemma TileSheet_init_tiles_nonempty:
  assumes "TileSheet_init path loaded t = Inr ts"
  shows "ts_tiles ts \<noteq> []"
proof -
  from assms obtain s qc qr tiles where
    sl: "slice_tiles s t (max 1 qr) (max 1 qc) = Inr tiles" and tl: "ts_tiles ts = tiles"
    by (auto simp: TileSheet_init_def split: sum.splits)
  have "length tiles = length (loop_cells (max 1 qr) (max 1 qc))"
    using sl unfolding slice_tiles_def by (rule append_each_length)
  moreover have "loop_cells (max 1 qr) (max 1 qc) \<noteq> []"
    by (rule loop_cells_nonempty) simp_all
  ultimately show ?thesis using tl by auto
qed

subsection \<open>Construction that fails\<close>

lemma open_base_failure:
  assumes "TileSheet_init path loaded (tile_size c) = Inl e" "path \<noteq> []"
  shows "open_base c path loaded = Inr (Some e, c)"
  using assms by (simp add: open_base_def)

lemma add_sheets_all_fail:
  assumes "\<forall>pl\<in>set paths. \<exists>e. TileSheet_init (fst pl) (snd pl) (tile_size c) = Inl e"
  shows "snd (add_sheets c paths) = c"
  using assms
proof (induction paths)
  case Nil
  then show ?case by simp
next
  case (Cons a paths)
  obtain p l where a: "a = (p, l)" by (cases a)
  obtain e where "TileSheet_init p l (tile_size c) = Inl e" using Cons.prems a by auto
  moreover have "snd (add_sheets c paths) = c" using Cons by simp
  ultimately show ?case using a by (auto split: prod.splits)
qed

lemma add_palette_sheet_all_fail:
  assumes "\<forall>pl\<in>set paths. \<exists>e. TileSheet_init (fst pl) (snd pl) (tile_size c) = Inl e"
  shows "snd (add_palette_sheet c paths) =
           c\<lparr>palette_index := palette_index (snd (add_palette_sheet c paths)),
             win_w := win_w (snd (add_palette_sheet c paths)),
             win_h := win_h (snd (add_palette_sheet c paths))\<rparr>"
proof -
  have "snd (add_sheets c paths) = c"
    using assms by (rule add_sheets_all_fail)
  then obtain es where "add_sheets c paths = (es, c)" by (cases "add_sheets c paths") simp
  then show ?thesis
    by (simp add: add_palette_sheet_def resize_window_for_canvas_def Let_def split: option.splits)
qed

subsection \<open>Blits and fills\<close>

lemma blit_area_size [simp]: "sw (blit_area d s p a) = sw d" "sh (blit_area d s p a) = sh d"
  by (cases p; cases a; simp add: blit_area_def)+

lemma blit_size [simp]: "sw (blit d s p) = sw d" "sh (blit d s p) = sh d"
  by (simp_all add: blit_def)

lemma fill_size [simp]: "sw (fill s col r) = sw s" "sh (fill s col r) = sh s"
  by (cases r; simp add: fill_def)+

lemma in_bounds_blit [simp]: "in_bounds (blit d s p) q = in_bounds d q"
  by (cases q) (simp add: in_bounds_def)

lemma in_bounds_fill [simp]: "in_bounds (fill s col r) q = in_bounds s q"
  by (cases q) (simp add: in_bounds_def)

lemma spix_blit:
  "spix (blit d s (dx, dy)) (x, y) =
     (if in_bounds d (x, y) \<and> in_bounds s (x - dx, y - dy)
      then ALPHA_BLEND (spix s (x - dx, y - dy)) (spix d (x, y)) else spix d (x, y))"
  by (auto simp: blit_def blit_area_def in_bounds_def Let_def)

lemma spix_fill:
  "spix (fill s col (rx, ry, rw, rh)) (x, y) =
     (if in_bounds s (x, y) \<and> rx \<le> x \<and> x < rx + rw \<and> ry \<le> y \<and> y < ry + rh
      then col else spix s (x, y))"
  by (simp add: fill_def)

lemma open_base_ok:
  assumes "0 < tile_size c" "path \<noteq> []" "0 \<le> sw img" "0 \<le> sh img"
  shows "\<exists>ts. TileSheet_init path (Inr img) (tile_size c) = Inr ts \<and>
          open_base c path (Inr img) =
            Inr (None, c\<lparr>base_sheet := Some ts,
                          canvas_surface :=
                            Some (blit \<lparr>sw = sw img, sh = sh img, spix = (\<lambda>p. transparent), sid = Canvas (sid img)\<rparr> img (0, 0)),
                          win_w := sw img + (PALETTE_THUMB * PALETTE_COLS + 20),
                          win_h := max (sh img) 400\<rparr>)"
  using assms
  by (simp add: open_base_def TileSheet_init_ok surface_of_size_def resize_window_for_canvas_def
      tile_size_def TILE_SIZE_def)

lemma same_image_blit_onto_blank:
  "same_image (blit \<lparr>sw = sw img, sh = sh img, spix = (\<lambda>p. transparent), sid = Canvas (sid img)\<rparr> img (0, 0)) img"
  by (simp add: same_image_def spix_blit in_bounds_def ALPHA_BLEND_onto_transparent
      alpha_def transparent_def)

subsection \<open>The palette\<close>

lemma add_sheets_constructed:
  assumes "\<forall>s\<in>set (palette_sheets c). \<exists>p l u. TileSheet_init p l u = Inr s"
  shows "\<forall>s\<in>set (palette_sheets (snd (add_sheets c paths))). \<exists>p l u. TileSheet_init p l u = Inr s"
  using assms
proof (induction paths arbitrary: c)
  case Nil
  then show ?case by simp
next
  case (Cons a paths)
  obtain p l where a: "a = (p, l)" by (cases a)
  show ?case
  proof (cases "TileSheet_init p l (tile_size c)")
    case (Inl e)
    with a Cons.IH [OF Cons.prems] show ?thesis by (auto split: prod.splits)
  next
    case (Inr ts)
    have "\<forall>s\<in>set (palette_sheets (c\<lparr>palette_sheets := palette_sheets c @ [ts]\<rparr>)).
            \<exists>p l u. TileSheet_init p l u = Inr s"
      using Cons.prems Inr by auto
    from Cons.IH [OF this] a Inr show ?thesis by simp
  qed
qed

lemma first_tile_of_sheet_ok:
  assumes "0 \<le> palette_index c" "palette_index c < int (length (palette_sheets c))"
    "ts_tiles (palette_sheets c ! nat (palette_index c)) \<noteq> []"
  shows "first_tile_of_sheet c = Inr (hd (ts_tiles (palette_sheets c ! nat (palette_index c))))"
  using assms by (auto simp: first_tile_of_sheet_def Let_def split: list.splits)

lemma on_key_number_ok:
  assumes "\<forall>s\<in>set (palette_sheets c). ts_tiles s \<noteq> []"
  shows "on_key_number c key =
           Inr (if K_1 \<le> key \<and> key \<le> K_9 \<and> key - K_1 < int (length (palette_sheets c))
                then c\<lparr>palette_index := key - K_1,
                       selected_tile := Some (hd (ts_tiles (palette_sheets c ! nat (key - K_1))))\<rparr>
                else c)"
proof (cases "K_1 \<le> key \<and> key \<le> K_9 \<and> key - K_1 < int (length (palette_sheets c))")
  case False
  then show ?thesis by (auto simp: on_key_number_def Let_def)
next
  case True
  then have i: "0 \<le> key - K_1" "nat (key - K_1) < length (palette_sheets c)" by auto
  then have "ts_tiles (palette_sheets c ! nat (key - K_1)) \<noteq> []"
    using assms by simp
  then have "first_tile_of_sheet (c\<lparr>palette_index := key - K_1\<rparr>) =
               Inr (hd (ts_tiles (palette_sheets c ! nat (key - K_1))))"
    using True i first_tile_of_sheet_ok [of "c\<lparr>palette_index := key - K_1\<rparr>"] by simp
  moreover have "palette_sheets c \<noteq> []" using i by auto
  ultimately show ?thesis using True by (simp add: on_key_number_def Let_def)
qed

subsection \<open>Lifting and dropping a tile\<close>

lemma alpha_transparent [simp]: "alpha transparent = 0"
  by (simp add: alpha_def transparent_def)

lemma cell_origin_bounds:
  assumes "0 < (t::int)" "0 \<le> m"
  shows "0 \<le> m div t * t" "m div t * t \<le> m" "m < m div t * t + t"
proof -
  have e: "m = m div t * t + m mod t" by simp
  have r: "0 \<le> m mod t" "m mod t < t" using assms by simp_all
  show "m div t * t \<le> m" using e r by linarith
  show "m < m div t * t + t" using e r by linarith
  have "0 \<le> m div t" using assms by (simp add: pos_imp_zdiv_nonneg_iff)
  then show "0 \<le> m div t * t" using assms by simp
qed

lemma cell_of_inside:
  assumes "0 < (t::int)" "q * t \<le> x" "x < q * t + t"
  shows "x div t = q"
proof -
  have "x = t * q + (x - q * t)" by (simp add: algebra_simps)
  moreover have "0 \<le> x - q * t" "x - q * t < t" using assms by simp_all
  ultimately show ?thesis by (metis int_div_pos_eq)
qed

lemma get_canvas_cell_pos_inside:
  assumes "canvas_surface c = Some cv" "0 < tile_size c" "in_bounds cv (mx, my)"
  shows "get_canvas_cell_pos c mx my =
           Inr (Some (mx div tile_size c * tile_size c, my div tile_size c * tile_size c))"
  using assms by (auto simp: get_canvas_cell_pos_def in_bounds_def py_floordiv_def)

lemma get_canvas_cell_pos_outside:
  assumes "canvas_surface c = Some cv" "\<not> in_bounds cv (mx, my)"
  shows "get_canvas_cell_pos c mx my = Inr None"
  using assms by (auto simp: get_canvas_cell_pos_def in_bounds_def)

lemma get_tile_surface_from_canvas_ok:
  assumes "canvas_surface c = Some cv" "0 \<le> tile_size c"
  shows "get_tile_surface_from_canvas c tx ty =
           Inr (blit_area \<lparr>sw = tile_size c, sh = tile_size c, spix = (\<lambda>p. transparent), sid = Lifted tx ty\<rparr> cv (0, 0)
                  (tx, ty, tile_size c, tile_size c))"
  using assms
  by (simp add: get_tile_surface_from_canvas_def new_surface_def surface_of_size_def)

lemma spix_lifted_tile:
  "spix (blit_area \<lparr>sw = t, sh = t, spix = (\<lambda>p. transparent), sid = k\<rparr> cv (0, 0) (tx, ty, t, t)) (i, j) =
     (if 0 \<le> i \<and> i < t \<and> 0 \<le> j \<and> j < t \<and> in_bounds cv (tx + i, ty + j)
      then spix cv (tx + i, ty + j) else transparent)"
  by (auto simp: blit_area_def in_bounds_def Let_def ALPHA_BLEND_onto_transparent alpha_def
      transparent_def add.commute)

lemma in_bounds_lifted_tile:
  "in_bounds (blit_area \<lparr>sw = t, sh = t, spix = (\<lambda>p. transparent), sid = k\<rparr> cv (0, 0) a) (i, j)
     = (0 \<le> i \<and> i < t \<and> 0 \<le> j \<and> j < t)"
  by (simp add: in_bounds_def)

lemma put_back_restores:
  "blit (fill cv transparent (tx, ty, t, t))
        (blit_area \<lparr>sw = t, sh = t, spix = (\<lambda>p. transparent), sid = k\<rparr> cv (0, 0) (tx, ty, t, t)) (tx, ty) = cv"
proof (rule surface.equality)
  show "spix (blit (fill cv transparent (tx, ty, t, t))
        (blit_area \<lparr>sw = t, sh = t, spix = (\<lambda>p. transparent), sid = k\<rparr> cv (0, 0) (tx, ty, t, t)) (tx, ty)) = spix cv"
  proof (rule ext)
    fix p :: "int \<times> int"
    obtain x y where p: "p = (x, y)" by (cases p)
    show "spix (blit (fill cv transparent (tx, ty, t, t))
        (blit_area \<lparr>sw = t, sh = t, spix = (\<lambda>p. transparent), sid = k\<rparr> cv (0, 0) (tx, ty, t, t)) (tx, ty)) p = spix cv p"
      unfolding p
      by (auto simp: spix_blit spix_fill spix_lifted_tile in_bounds_lifted_tile
          ALPHA_BLEND_onto_transparent)
  qed
qed (simp_all add: blit_def blit_area_def fill_def)

lemma handle_moves:
  "\<exists>m. handle_events c (map MOUSEMOTION ps @ rest) = handle_events (c\<lparr>canvas_drag_mouse := m\<rparr>) rest"
proof (induction ps arbitrary: c)
  case Nil
  have "handle_events c (map MOUSEMOTION [] @ rest) =
          handle_events (c\<lparr>canvas_drag_mouse := canvas_drag_mouse c\<rparr>) rest"
    by simp
  then show ?case by (rule exI)
next
  case (Cons p ps)
  show ?case
  proof (cases "canvas_dragging c")
    case True
    obtain m where "handle_events (c\<lparr>canvas_drag_mouse := p\<rparr>) (map MOUSEMOTION ps @ rest)
        = handle_events (c\<lparr>canvas_drag_mouse := p, canvas_drag_mouse := m\<rparr>) rest"
      using Cons.IH [of "c\<lparr>canvas_drag_mouse := p\<rparr>"] by auto
    with True show ?thesis by (intro exI [of _ m]) simp
  next
    case False
    with Cons.IH [of c] show ?thesis by simp
  qed
qed

lemma on_left_down_canvas_lift:
  assumes "canvas_surface c = Some cv" "0 < tile_size c" "in_bounds cv (mx, my)"
    and "tx = mx div tile_size c * tile_size c" "ty = my div tile_size c * tile_size c"
    and "tile = blit_area \<lparr>sw = tile_size c, sh = tile_size c, spix = (\<lambda>p. transparent), sid = Lifted tx ty\<rparr> cv (0, 0)
                  (tx, ty, tile_size c, tile_size c)"
    and "is_surface_nonempty tile"
  shows "handle_event c (MOUSEBUTTONDOWN 1 (mx, my)) =
           Inr (c\<lparr>canvas_selected_tile := Some tile, canvas_selected_orig := Some (tx, ty),
                  canvas_dragging := True, canvas_drag_mouse := (mx, my),
                  canvas_surface := Some (fill cv transparent (tx, ty, tile_size c, tile_size c))\<rparr>)"
proof -
  have "\<not> mx > sw cv" using assms(3) by (simp add: in_bounds_def)
  then show ?thesis
    using assms
    by (simp add: on_mouse_down_def on_left_down_canvas_def get_canvas_cell_pos_inside
        get_tile_surface_from_canvas_ok)
qed

lemma on_mouse_up_drop:
  assumes "canvas_surface c = Some cv" "0 < tile_size c" "canvas_dragging c"
    "canvas_selected_tile c = Some held" "canvas_selected_orig c = Some orig"
  shows "handle_event c (MOUSEBUTTONUP 1 (ux, uy)) =
           Inr (c\<lparr>canvas_surface :=
                    Some (blit cv held
                      (if in_bounds cv (ux, uy)
                       then (ux div tile_size c * tile_size c, uy div tile_size c * tile_size c)
                       else orig)),
                  canvas_selected_tile := None, canvas_selected_orig := None,
                  canvas_dragging := False\<rparr>)"
proof (cases "in_bounds cv (ux, uy)")
  case True
  then show ?thesis
    using assms
    by (simp add: on_mouse_up_def get_canvas_cell_pos_inside drop_blit_def clear_drag_state_def)
next
  case False
  then show ?thesis
    using assms
    by (simp add: on_mouse_up_def get_canvas_cell_pos_outside drop_blit_def clear_drag_state_def)
qed

lemma has_visible_pixelI:
  "in_bounds s (x, y) \<Longrightarrow> alpha (spix s (x, y)) \<noteq> 0 \<Longrightarrow> has_visible_pixel s"
proof -
  assume "in_bounds s (x, y)" and v: "alpha (spix s (x, y)) \<noteq> 0"
  then have x: "x \<in> {0..<sw s}" and y: "y \<in> {0..<sh s}"
    by (simp_all add: in_bounds_def)
  from v y have "\<exists>y\<in>{0..<sh s}. alpha (spix s (x, y)) \<noteq> 0" by (rule rev_bexI [rotated])
  with x show ?thesis unfolding has_visible_pixel_def by (rule rev_bexI)
qed

lemma two_cells_left_tile_visible:
  "is_surface_nonempty
     (blit_area \<lparr>sw = 16, sh = 16, spix = (\<lambda>p. transparent), sid = k\<rparr> two_cells (0, 0) (0, 0, 16, 16))"
  unfolding is_surface_nonempty_def
  by (rule has_visible_pixelI [of _ 0 0])
     (simp_all add: in_bounds_lifted_tile spix_lifted_tile in_bounds_def two_cells_def red_def
        alpha_def)

lemma aligned_cell_same:
  assumes "0 < (t::int)" "a = qa * t" "b = qb * t" "a \<le> x" "x < a + t" "b \<le> x" "x < b + t"
  shows "a = b"
proof -
  have "x div t = qa" using assms by (intro cell_of_inside) simp_all
  moreover have "x div t = qb" using assms by (intro cell_of_inside) simp_all
  ultimately show ?thesis using assms by simp
qed

lemma ALPHA_BLEND_replaces:
  "alpha d = 0 \<or> alpha s = 255 \<Longrightarrow> ALPHA_BLEND s d = s"
  using ALPHA_BLEND_onto_transparent ALPHA_BLEND_opaque_src by blast

lemma spix_opened_canvas:
  "spix (blit \<lparr>sw = sw img, sh = sh img, spix = (\<lambda>p. transparent), sid = Canvas (sid img)\<rparr> img (0, 0)) (x, y) =
     (if in_bounds img (x, y) then spix img (x, y) else transparent)"
  by (simp add: spix_blit in_bounds_def ALPHA_BLEND_onto_transparent)

lemma open_two_cells:
  "\<exists>ts. handle_event Composer_init (KEY_o ''base.png'' (Inr two_cells)) =
     Inr (Composer_init\<lparr>base_sheet := Some ts,
            canvas_surface :=
              Some (blit \<lparr>sw = 32, sh = 16, spix = (\<lambda>p. transparent), sid = Canvas (Loaded 0)\<rparr> two_cells (0, 0)),
            win_w := 308, win_h := 400\<rparr>)"
proof -
  have "0 < tile_size Composer_init" "''base.png'' \<noteq> []" "0 \<le> sw two_cells" "0 \<le> sh two_cells"
    by (simp_all add: Composer_init_def tile_size_def TILE_SIZE_def two_cells_def)
  from open_base_ok [OF this] show ?thesis
    by (auto simp: two_cells_def PALETTE_THUMB_def PALETTE_COLS_def)
qed

lemma ALPHA_BLEND_transparent_dst [simp]: "ALPHA_BLEND s transparent = s"
  by (simp add: ALPHA_BLEND_onto_transparent)

lemma alpha_examples [simp]:
  "alpha red = 255" "alpha blue = 255" "alpha black = 255" "alpha half_red = 128"
  by (simp_all add: alpha_def red_def blue_def black_def half_red_def)

lemma drag_two_cells_run:
  "\<exists>ts. handle_events Composer_init
          [KEY_o ''base.png'' (Inr two_cells), MOUSEBUTTONDOWN 1 (3, 4), MOUSEBUTTONUP 1 (20, 5)] =
     Inr (Composer_init\<lparr>base_sheet := Some ts,
            canvas_surface :=
              Some (blit (fill (blit \<lparr>sw = 32, sh = 16, spix = (\<lambda>p. transparent), sid = Canvas (Loaded 0)\<rparr> two_cells (0, 0))
                            transparent (0, 0, 16, 16))
                      (blit_area \<lparr>sw = 16, sh = 16, spix = (\<lambda>p. transparent), sid = Lifted 0 0\<rparr>
                         (blit \<lparr>sw = 32, sh = 16, spix = (\<lambda>p. transparent), sid = Canvas (Loaded 0)\<rparr> two_cells (0, 0))
                         (0, 0) (0, 0, 16, 16))
                      (16, 0)),
            win_w := 308, win_h := 400, canvas_drag_mouse := (3, 4)\<rparr>)"
proof -
  define cv0 where "cv0 = blit \<lparr>sw = 32, sh = 16, spix = (\<lambda>p. transparent), sid = Canvas (Loaded 0)\<rparr> two_cells (0, 0)"
  define tile where "tile = blit_area \<lparr>sw = 16, sh = 16, spix = (\<lambda>p. transparent), sid = Lifted 0 0\<rparr> cv0 (0, 0)
                               (0, 0, 16, 16)"
  obtain ts where opened: "handle_event Composer_init (KEY_o ''base.png'' (Inr two_cells)) =
     Inr (Composer_init\<lparr>base_sheet := Some ts, canvas_surface := Some cv0,
            win_w := 308, win_h := 400\<rparr>)"
    using open_two_cells unfolding cv0_def by blast
  define c0 where "c0 = Composer_init\<lparr>base_sheet := Some ts, canvas_surface := Some cv0,
            win_w := 308, win_h := 400\<rparr>"
  have ts: "tile_size c0 = 16" by (simp add: c0_def Composer_init_def tile_size_def TILE_SIZE_def)
  have cv: "canvas_surface c0 = Some cv0" by (simp add: c0_def)
  have vis: "is_surface_nonempty tile"
    unfolding is_surface_nonempty_def tile_def
    by (rule has_visible_pixelI [of _ 0 0])
       (simp_all add: in_bounds_lifted_tile spix_lifted_tile cv0_def spix_blit in_bounds_def
          two_cells_def)
  have down: "handle_event c0 (MOUSEBUTTONDOWN 1 (3, 4)) =
           Inr (c0\<lparr>canvas_selected_tile := Some tile, canvas_selected_orig := Some (0, 0),
                  canvas_dragging := True, canvas_drag_mouse := (3, 4),
                  canvas_surface := Some (fill cv0 transparent (0, 0, 16, 16))\<rparr>)"
    using on_left_down_canvas_lift [OF cv, of 3 4 0 0 tile] vis
    by (simp add: ts tile_def in_bounds_def cv0_def)
  have up: "handle_event (c0\<lparr>canvas_selected_tile := Some tile, canvas_selected_orig := Some (0, 0),
                  canvas_dragging := True, canvas_drag_mouse := (3, 4),
                  canvas_surface := Some (fill cv0 transparent (0, 0, 16, 16))\<rparr>)
              (MOUSEBUTTONUP 1 (20, 5)) =
           Inr (c0\<lparr>canvas_drag_mouse := (3, 4),
                   canvas_surface := Some (blit (fill cv0 transparent (0, 0, 16, 16)) tile (16, 0)),
                   canvas_selected_tile := None, canvas_selected_orig := None,
                   canvas_dragging := False\<rparr>)"
    using on_mouse_up_drop [of "c0\<lparr>canvas_selected_tile := Some tile, canvas_selected_orig := Some (0, 0),
                  canvas_dragging := True, canvas_drag_mouse := (3, 4),
                  canvas_surface := Some (fill cv0 transparent (0, 0, 16, 16))\<rparr>"
             "fill cv0 transparent (0, 0, 16, 16)" tile "(0, 0)" 20 5]
    by (simp add: tile_size_def TILE_SIZE_def in_bounds_def cv0_def)
  have "handle_events Composer_init
          [KEY_o ''base.png'' (Inr two_cells), MOUSEBUTTONDOWN 1 (3, 4), MOUSEBUTTONUP 1 (20, 5)] =
        Inr (c0\<lparr>canvas_drag_mouse := (3, 4),
                   canvas_surface := Some (blit (fill cv0 transparent (0, 0, 16, 16)) tile (16, 0)),
                   canvas_selected_tile := None, canvas_selected_orig := None,
                   canvas_dragging := False\<rparr>)"
    using opened down up by (simp add: c0_def)
  then show ?thesis
    unfolding c0_def tile_def cv0_def by (intro exI [of _ ts]) (simp add: Composer_init_def)
qed

subsection \<open>Erasing\<close>

lemma handle_events_append:
  "handle_events c es = Inr c1 \<Longrightarrow> handle_events c (es @ es') = handle_events c1 es'"
  by (induction es arbitrary: c) (auto split: sum.splits)

lemma on_key_x_inside:
  assumes "canvas_surface c = Some cv" "0 < tile_size c" "in_bounds cv (mx, my)"
  shows "handle_event c (KEY_x (mx, my)) =
           Inr (c\<lparr>canvas_surface :=
                    Some (fill cv transparent
                            (mx div tile_size c * tile_size c, my div tile_size c * tile_size c,
                             tile_size c, tile_size c))\<rparr>)"
  using assms by (simp add: on_key_x_def get_canvas_cell_pos_inside)

lemma on_key_x_outside:
  assumes "canvas_surface c = Some cv" "\<not> in_bounds cv (mx, my)"
  shows "handle_event c (KEY_x (mx, my)) = Inr c"
  using assms by (simp add: on_key_x_def get_canvas_cell_pos_outside)

lemma lift_two_cells_run:
  "\<exists>ts. handle_events Composer_init
          [KEY_o ''base.png'' (Inr two_cells), MOUSEBUTTONDOWN 1 (3, 4)] =
     Inr (Composer_init\<lparr>base_sheet := Some ts,
            canvas_surface :=
              Some (fill (blit \<lparr>sw = 32, sh = 16, spix = (\<lambda>p. transparent), sid = Canvas (Loaded 0)\<rparr> two_cells (0, 0))
                            transparent (0, 0, 16, 16)),
            canvas_selected_tile :=
              Some (blit_area \<lparr>sw = 16, sh = 16, spix = (\<lambda>p. transparent), sid = Lifted 0 0\<rparr>
                         (blit \<lparr>sw = 32, sh = 16, spix = (\<lambda>p. transparent), sid = Canvas (Loaded 0)\<rparr> two_cells (0, 0))
                         (0, 0) (0, 0, 16, 16)),
            canvas_selected_orig := Some (0, 0), canvas_dragging := True,
            win_w := 308, win_h := 400, canvas_drag_mouse := (3, 4)\<rparr>)"
proof -
  define cv0 where "cv0 = blit \<lparr>sw = 32, sh = 16, spix = (\<lambda>p. transparent), sid = Canvas (Loaded 0)\<rparr> two_cells (0, 0)"
  define tile where "tile = blit_area \<lparr>sw = 16, sh = 16, spix = (\<lambda>p. transparent), sid = Lifted 0 0\<rparr> cv0 (0, 0)
                               (0, 0, 16, 16)"
  obtain ts where opened: "handle_event Composer_init (KEY_o ''base.png'' (Inr two_cells)) =
     Inr (Composer_init\<lparr>base_sheet := Some ts, canvas_surface := Some cv0,
            win_w := 308, win_h := 400\<rparr>)"
    using open_two_cells unfolding cv0_def by blast
  define c0 where "c0 = Composer_init\<lparr>base_sheet := Some ts, canvas_surface := Some cv0,
            win_w := 308, win_h := 400\<rparr>"
  have ts: "tile_size c0 = 16" by (simp add: c0_def Composer_init_def tile_size_def TILE_SIZE_def)
  have cv: "canvas_surface c0 = Some cv0" by (simp add: c0_def)
  have vis: "is_surface_nonempty tile"
    unfolding is_surface_nonempty_def tile_def
    by (rule has_visible_pixelI [of _ 0 0])
       (simp_all add: in_bounds_lifted_tile spix_lifted_tile cv0_def spix_blit in_bounds_def
          two_cells_def)
  have down: "handle_event c0 (MOUSEBUTTONDOWN 1 (3, 4)) =
           Inr (c0\<lparr>canvas_selected_tile := Some tile, canvas_selected_orig := Some (0, 0),
                  canvas_dragging := True, canvas_drag_mouse := (3, 4),
                  canvas_surface := Some (fill cv0 transparent (0, 0, 16, 16))\<rparr>)"
    using on_left_down_canvas_lift [OF cv, of 3 4 0 0 tile] vis
    by (simp add: ts tile_def in_bounds_def cv0_def)
  have "handle_events Composer_init
          [KEY_o ''base.png'' (Inr two_cells), MOUSEBUTTONDOWN 1 (3, 4)] =
        Inr (c0\<lparr>canvas_selected_tile := Some tile, canvas_selected_orig := Some (0, 0),
                  canvas_dragging := True, canvas_drag_mouse := (3, 4),
                  canvas_surface := Some (fill cv0 transparent (0, 0, 16, 16))\<rparr>)"
    using opened down by (simp add: c0_def)
  then show ?thesis
    unfolding c0_def tile_def cv0_def by (intro exI [of _ ts]) (simp add: Composer_init_def)
qed

subsection \<open>Placing the selected tile\<close>

lemma place_tile_on_canvas_inside:
  assumes "canvas_surface c = Some cv" "selected_tile c = Some sel" "0 < tile_size c"
    "in_bounds cv (mx, my)"
  shows "place_tile_on_canvas c mx my =
           Inr (c\<lparr>canvas_surface :=
                    Some (blit cv sel (mx div tile_size c * tile_size c,
                                       my div tile_size c * tile_size c))\<rparr>)"
proof -
  have m: "0 \<le> mx" "mx < sw cv" "0 \<le> my" "my < sh cv"
    using assms(4) by (simp_all add: in_bounds_def)
  have "0 \<le> mx div tile_size c * tile_size c" "mx div tile_size c * tile_size c \<le> mx"
    "0 \<le> my div tile_size c * tile_size c" "my div tile_size c * tile_size c \<le> my"
    using cell_origin_bounds [OF assms(3)] m by simp_all
  then show ?thesis
    using assms m by (simp add: place_tile_on_canvas_def py_floordiv_def Let_def)
qed

lemma ALPHA_BLEND_twice:
  assumes "alpha s = 0 \<or> alpha s = 255"
  shows "ALPHA_BLEND s (ALPHA_BLEND s d) = ALPHA_BLEND s d"
proof (cases "alpha s = 255")
  case True
  then show ?thesis by (simp add: ALPHA_BLEND_opaque_src)
next
  case False
  with assms have z: "alpha s = 0" by simp
  show ?thesis
  proof (cases "alpha d = 0")
    case True
    then show ?thesis using z by (simp add: ALPHA_BLEND_onto_transparent)
  next
    case False
    then show ?thesis using z by (simp add: ALPHA_BLEND_clear_src)
  qed
qed

lemma blit_twice:
  assumes "\<forall>i j. in_bounds sel (i, j) \<longrightarrow> alpha (spix sel (i, j)) = 0 \<or> alpha (spix sel (i, j)) = 255"
  shows "blit (blit cv sel (tx, ty)) sel (tx, ty) = blit cv sel (tx, ty)"
proof (rule surface.equality)
  show "spix (blit (blit cv sel (tx, ty)) sel (tx, ty)) = spix (blit cv sel (tx, ty))"
  proof (rule ext)
    fix p :: "int \<times> int"
    obtain x y where p: "p = (x, y)" by (cases p)
    show "spix (blit (blit cv sel (tx, ty)) sel (tx, ty)) p = spix (blit cv sel (tx, ty)) p"
      unfolding p using assms by (simp add: spix_blit ALPHA_BLEND_twice)
  qed
qed (simp_all add: blit_def blit_area_def)

subsection \<open>Runs from the initial state\<close>

lemma hd_loop_cells:
  assumes "1 \<le> rows" "1 \<le> cols"
  shows "hd (loop_cells rows cols) = (0, 0)"
proof -
  have "loop_cells rows cols \<noteq> []" using assms by (rule loop_cells_nonempty)
  then have "hd (loop_cells rows cols) = loop_cells rows cols ! 0" by (simp add: hd_conv_nth)
  also have "\<dots> = loop_cells rows cols ! nat (0 * cols + 0)" by simp
  also have "\<dots> = (0, 0)" using assms by (intro nth_loop_cells) simp_all
  finally show ?thesis .
qed

lemma add_one_sheet:
  assumes "0 < tile_size c" "palette_sheets c = []" "0 \<le> palette_index c"
  shows "\<exists>ts. snd (add_palette_sheet c [(p, Inr S)]) =
                 resize_window_for_canvas (c\<lparr>palette_sheets := [ts], palette_index := 0\<rparr>)
             \<and> hd (ts_tiles ts) =
                 blit_area \<lparr>sw = tile_size c, sh = tile_size c, spix = (\<lambda>p. transparent), sid = Tile (sid S) 0 0\<rparr> S (0, 0)
                   (0, 0, tile_size c, tile_size c)
             \<and> ts_tiles ts \<noteq> []"
proof -
  define t where "t = tile_size c"
  define ts where "ts = \<lparr>ts_path = p, ts_tile_size = t, ts_surface = S,
                ts_width = sw S, ts_height = sh S,
                ts_cols = max 1 (sw S div t), ts_rows = max 1 (sh S div t),
                ts_tiles = map (\<lambda>xy. blit_area \<lparr>sw = t, sh = t, spix = (\<lambda>p. transparent),
                                                   sid = Tile (sid S) (fst xy) (snd xy)\<rparr> S
                                        (0, 0) (fst xy * t, snd xy * t, t, t))
                             (loop_cells (max 1 (sh S div t)) (max 1 (sw S div t)))\<rparr>"
  have init: "TileSheet_init p (Inr S) (tile_size c) = Inr ts"
    using TileSheet_init_ok [of t p S] assms(1) by (simp add: t_def ts_def)
  have ne: "loop_cells (max 1 (sh S div t)) (max 1 (sw S div t)) \<noteq> []"
    by (rule loop_cells_nonempty) simp_all
  have h: "hd (ts_tiles ts) =
             blit_area \<lparr>sw = t, sh = t, spix = (\<lambda>p. transparent), sid = Tile (sid S) 0 0\<rparr> S (0, 0) (0, 0, t, t)"
    using ne hd_loop_cells [of "max 1 (sh S div t)" "max 1 (sw S div t)"]
    by (simp add: ts_def hd_map)
  have "snd (add_palette_sheet c [(p, Inr S)]) =
          resize_window_for_canvas (c\<lparr>palette_sheets := [ts], palette_index := 0\<rparr>)"
    using init assms(2,3) by (simp add: add_palette_sheet_def Let_def min_def)
  with h ne show ?thesis unfolding t_def by (intro exI [of _ ts]) (simp add: ts_def t_def)
qed

lemma palette_setup_run:
  assumes "0 \<le> sw B" "0 \<le> sh B"
  shows "\<exists>c. handle_events Composer_init
               [KEY_o ''base.png'' (Inr B), KEY_a [(''tiles.png'', Inr S)], KEY_number K_1] = Inr c
           \<and> canvas_surface c = Some (blit \<lparr>sw = sw B, sh = sh B, spix = (\<lambda>p. transparent), sid = Canvas (sid B)\<rparr> B (0, 0))
           \<and> selected_tile c =
               Some (blit_area \<lparr>sw = 16, sh = 16, spix = (\<lambda>p. transparent), sid = Tile (sid S) 0 0\<rparr> S (0, 0) (0, 0, 16, 16))
           \<and> tile_size c = 16 \<and> \<not> canvas_dragging c"
proof -
  have t: "tile_size Composer_init = 16" by (simp add: Composer_init_def tile_size_def TILE_SIZE_def)
  obtain ts0 where opened: "open_base Composer_init ''base.png'' (Inr B) =
            Inr (None, Composer_init\<lparr>base_sheet := Some ts0,
                          canvas_surface :=
                            Some (blit \<lparr>sw = sw B, sh = sh B, spix = (\<lambda>p. transparent), sid = Canvas (sid B)\<rparr> B (0, 0)),
                          win_w := sw B + (PALETTE_THUMB * PALETTE_COLS + 20),
                          win_h := max (sh B) 400\<rparr>)"
    using open_base_ok [of Composer_init "''base.png''" B] assms t by auto
  define c0 where "c0 = Composer_init\<lparr>base_sheet := Some ts0,
                          canvas_surface :=
                            Some (blit \<lparr>sw = sw B, sh = sh B, spix = (\<lambda>p. transparent), sid = Canvas (sid B)\<rparr> B (0, 0)),
                          win_w := sw B + (PALETTE_THUMB * PALETTE_COLS + 20),
                          win_h := max (sh B) 400\<rparr>"
  have c0: "tile_size c0 = 16" "palette_sheets c0 = []" "palette_index c0 = 0"
    "\<not> canvas_dragging c0"
    "canvas_surface c0 = Some (blit \<lparr>sw = sw B, sh = sh B, spix = (\<lambda>p. transparent), sid = Canvas (sid B)\<rparr> B (0, 0))"
    by (simp_all add: c0_def Composer_init_def tile_size_def TILE_SIZE_def)
  obtain ts where added: "snd (add_palette_sheet c0 [(''tiles.png'', Inr S)]) =
                 resize_window_for_canvas (c0\<lparr>palette_sheets := [ts], palette_index := 0\<rparr>)"
      and first: "hd (ts_tiles ts) =
                 blit_area \<lparr>sw = 16, sh = 16, spix = (\<lambda>p. transparent), sid = Tile (sid S) 0 0\<rparr> S (0, 0) (0, 0, 16, 16)"
      and ne: "ts_tiles ts \<noteq> []"
    using add_one_sheet [of c0 "''tiles.png''" S] c0 by auto
  define c1 where "c1 = resize_window_for_canvas (c0\<lparr>palette_sheets := [ts], palette_index := 0\<rparr>)"
  have c1: "tile_size c1 = 16" "palette_sheets c1 = [ts]" "\<not> canvas_dragging c1"
    "canvas_surface c1 = Some (blit \<lparr>sw = sw B, sh = sh B, spix = (\<lambda>p. transparent), sid = Canvas (sid B)\<rparr> B (0, 0))"
    using c0 by (simp_all add: c1_def resize_window_for_canvas_def)
  have key: "handle_event c1 (KEY_number K_1) =
               Inr (c1\<lparr>palette_index := 0, selected_tile := Some (hd (ts_tiles ts))\<rparr>)"
    using on_key_number_ok [of c1 K_1] c1 ne by (simp add: K_1_def K_9_def)
  have "handle_events Composer_init
               [KEY_o ''base.png'' (Inr B), KEY_a [(''tiles.png'', Inr S)], KEY_number K_1] =
          Inr (c1\<lparr>palette_index := 0, selected_tile := Some (hd (ts_tiles ts))\<rparr>)"
    using opened added key by (simp add: c0_def c1_def)
  then show ?thesis using c1 first by simp
qed

lemma blend_half_red_once: "ALPHA_BLEND half_red black = (128, 0, 0, 255)"
  by (simp add: ALPHA_BLEND_def ALPHA_BLEND_COMP_def half_red_def black_def)

lemma blend_half_red_twice: "ALPHA_BLEND half_red (128, 0, 0, 255) = (192, 0, 0, 255)"
  by (simp add: ALPHA_BLEND_def ALPHA_BLEND_COMP_def half_red_def)

subsection \<open>The tiles of a sheet\<close>

lemma slice_tile_size:
  assumes "0 \<le> t" "t < 2 ^ 31" "slice_tile src t xy = Inr tile"
  shows "sw tile = t \<and> sh tile = t"
proof -
  obtain x y where xy: "xy = (x, y)" by (cases xy)
  show ?thesis using assms(3) slice_tile_ok [OF assms(1,2), of src x y] xy by auto
qed

lemma slice_tile_pixel:
  assumes "0 \<le> t" "t < 2 ^ 31" "slice_tile src t (x, y) = Inr tile"
    and "0 \<le> i" "i < t" "0 \<le> j" "j < t"
  shows "spix tile (i, j) =
           (if in_bounds src (x * t + i, y * t + j) then spix src (x * t + i, y * t + j)
            else transparent)"
proof -
  have "tile = blit_area \<lparr>sw = t, sh = t, spix = (\<lambda>p. transparent), sid = Tile (sid src) x y\<rparr> src
            (0, 0) (x * t, y * t, t, t)"
    using assms(3) slice_tile_ok [OF assms(1,2), of src x y] by simp
  then show ?thesis using assms(4-7) by (simp add: spix_lifted_tile)
qed

lemma slice_tile_sid:
  assumes "slice_tile src t (x, y) = Inr tile"
  shows "sid tile = Tile (sid src) x y"
  using assms
  by (auto simp: slice_tile_def pg_Rect_def new_surface_def surface_of_size_def blit_area_def
      split: sum.splits option.splits if_splits prod.splits)

lemma append_each_map:
  assumes "append_each f xs = Inr ys" "\<And>x y. x \<in> set xs \<Longrightarrow> f x = Inr y \<Longrightarrow> h y = g x"
  shows "map h ys = map g xs"
  using assms
proof (induction xs arbitrary: ys)
  case Nil
  then show ?case by simp
next
  case (Cons a xs)
  from Cons.prems(1) obtain v vs where v: "f a = Inr v" "append_each f xs = Inr vs" "ys = v # vs"
    by (auto split: sum.splits)
  have "map h vs = map g xs" using v(2) Cons.prems(2) by (intro Cons.IH) auto
  moreover have "h v = g a" using v(1) Cons.prems(2) by simp
  ultimately show ?case using v(3) by simp
qed

lemma nth_loop_cells_index:
  assumes "n < length (loop_cells rows cols)"
  shows "loop_cells rows cols ! n = (int (n mod nat cols), int (n div nat cols))"
proof -
  have len: "n < nat rows * nat cols" using assms by (simp add: length_loop_cells)
  then have c0: "0 < nat cols" by (cases "nat cols") simp_all
  have r: "n div nat cols < nat rows"
    using len by (simp add: less_mult_imp_div_less)
  have m: "n mod nat cols < nat cols" using c0 by simp
  have "concat (map (\<lambda>y. map (\<lambda>x. (x, y)) (range_py cols)) (range_py rows))
          ! (n div nat cols * nat cols + n mod nat cols)
        = (map (\<lambda>x. (x, range_py rows ! (n div nat cols))) (range_py cols)) ! (n mod nat cols)"
    using r m by (intro nth_concat_rows) (simp_all add: length_range_py)
  also have "\<dots> = (int (n mod nat cols), int (n div nat cols))"
    using r m by (simp add: length_range_py nth_range_py)
  finally show ?thesis by (simp add: loop_cells_def)
qed

lemma distinct_loop_cells: "distinct (loop_cells rows cols)"
proof (rule distinct_conv_nth [THEN iffD2], intro allI impI)
  fix i j
  assume i: "i < length (loop_cells rows cols)" and j: "j < length (loop_cells rows cols)"
    and ne: "i \<noteq> j"
  show "loop_cells rows cols ! i \<noteq> loop_cells rows cols ! j"
  proof
    assume "loop_cells rows cols ! i = loop_cells rows cols ! j"
    then have "i mod nat cols = j mod nat cols" "i div nat cols = j div nat cols"
      using nth_loop_cells_index [OF i] nth_loop_cells_index [OF j] by simp_all
    then have "i = j" by (metis div_mult_mod_eq)
    with ne show False by simp
  qed
qed

lemma TileSheet_tiles_distinct:
  assumes "TileSheet_init path loaded t = Inr ts"
  shows "distinct (map sid (ts_tiles ts))"
proof -
  from assms obtain s qc qr tiles where
    sl: "slice_tiles s t (max 1 qr) (max 1 qc) = Inr tiles" and tl: "ts_tiles ts = tiles"
    by (auto simp: TileSheet_init_def split: sum.splits)
  have "map sid tiles = map (\<lambda>xy. Tile (sid s) (fst xy) (snd xy)) (loop_cells (max 1 qr) (max 1 qc))"
    using sl unfolding slice_tiles_def
  proof (rule append_each_map)
    fix xy tile
    assume "slice_tile s t xy = Inr tile"
    then show "sid tile = Tile (sid s) (fst xy) (snd xy)"
      using slice_tile_sid [of s t "fst xy" "snd xy" tile] by simp
  qed
  moreover have "distinct (map (\<lambda>xy. Tile (sid s) (fst xy) (snd xy)) (loop_cells (max 1 qr) (max 1 qc)))"
    by (rule distinct_map [THEN iffD2]) (auto simp: distinct_loop_cells inj_on_def)
  ultimately show ?thesis using tl by simp
qed

lemma distinct_sid_nth:
  assumes "distinct (map sid ts)" "i < length ts" "j < length ts" "sid (ts ! j) = sid (ts ! i)"
  shows "j = i"
  using nth_eq_iff_index_eq [OF assms(1), of j i] assms(2,3,4) by simp

lemma TileSheet_init_load_error: "TileSheet_init path (Inl e) t = Inl e"
  by (simp add: TileSheet_init_def)

lemma add_sheet_without_base:
  assumes "TileSheet_init p loaded 16 = Inr ts"
  shows "handle_events Composer_init [KEY_a [(p, loaded)]] =
           Inr (Composer_init\<lparr>palette_sheets := [ts]\<rparr>)"
  using assms
  by (simp add: add_palette_sheet_def Let_def resize_window_for_canvas_def Composer_init_def)

section \<open>Properties\<close>

subsection \<open>Releasing a dragged tile outside the canvas\<close>

text \<open>
  C1. On any canvas, a press of the left button on a cell that holds a visible pixel,
  then any pointer moves, then a release of the left button outside the canvas, ends
  with the canvas surface equal to the one before the press, and with nothing held.
\<close>

theorem drag_released_outside_reverts:
  assumes "canvas_surface c = Some cv" "0 < tile_size c" "in_bounds cv (mx, my)"
    and "get_tile_surface_from_canvas c (mx div tile_size c * tile_size c)
           (my div tile_size c * tile_size c) = Inr tile"
    and "is_surface_nonempty tile"
    and "\<not> in_bounds cv (ux, uy)"
  shows "\<exists>c'. handle_events c (MOUSEBUTTONDOWN 1 (mx, my) # map MOUSEMOTION moves
                                   @ [MOUSEBUTTONUP 1 (ux, uy)]) = Inr c'
              \<and> canvas_surface c' = Some cv \<and> \<not> canvas_dragging c'
              \<and> canvas_selected_tile c' = None"
proof -
  define t where "t = tile_size c"
  define tx where "tx = mx div t * t"
  define ty where "ty = my div t * t"
  have tile: "tile = blit_area \<lparr>sw = t, sh = t, spix = (\<lambda>p. transparent), sid = Lifted tx ty\<rparr> cv (0, 0) (tx, ty, t, t)"
    using assms(1,2,4) get_tile_surface_from_canvas_ok [of c cv tx ty]
    by (simp add: t_def tx_def ty_def)
  define c1 where "c1 = c\<lparr>canvas_selected_tile := Some tile, canvas_selected_orig := Some (tx, ty),
                  canvas_dragging := True, canvas_drag_mouse := (mx, my),
                  canvas_surface := Some (fill cv transparent (tx, ty, t, t))\<rparr>"
  have down: "handle_event c (MOUSEBUTTONDOWN 1 (mx, my)) = Inr c1"
    unfolding c1_def t_def
    by (rule on_left_down_canvas_lift [OF assms(1,2,3)])
       (use tile assms(5) in \<open>simp_all add: t_def tx_def ty_def\<close>)
  obtain m where moves: "handle_events c1 (map MOUSEMOTION moves @ [MOUSEBUTTONUP 1 (ux, uy)])
        = handle_events (c1\<lparr>canvas_drag_mouse := m\<rparr>) [MOUSEBUTTONUP 1 (ux, uy)]"
    using handle_moves by blast
  have up: "handle_event (c1\<lparr>canvas_drag_mouse := m\<rparr>) (MOUSEBUTTONUP 1 (ux, uy)) =
          Inr (c1\<lparr>canvas_drag_mouse := m,
                 canvas_surface := Some (blit (fill cv transparent (tx, ty, t, t)) tile (tx, ty)),
                 canvas_selected_tile := None, canvas_selected_orig := None,
                 canvas_dragging := False\<rparr>)"
    using assms(2,6)
      on_mouse_up_drop [of "c1\<lparr>canvas_drag_mouse := m\<rparr>" "fill cv transparent (tx, ty, t, t)"
        tile "(tx, ty)" ux uy]
    by (simp add: c1_def t_def)
  have restored: "blit (fill cv transparent (tx, ty, t, t)) tile (tx, ty) = cv"
    unfolding tile by (rule put_back_restores)
  show ?thesis
    using down moves up restored by simp
qed

theorem drag_released_outside_reverts_witness:
  "\<exists>c'. handle_events (Composer_init\<lparr>canvas_surface := Some two_cells\<rparr>)
           (MOUSEBUTTONDOWN 1 (3, 4) # map MOUSEMOTION [(10, 10), (40, 5)]
              @ [MOUSEBUTTONUP 1 (40, 5)]) = Inr c'
       \<and> canvas_surface c' = Some two_cells \<and> \<not> canvas_dragging c'
       \<and> canvas_selected_tile c' = None"
proof -
  define c where "c = Composer_init\<lparr>canvas_surface := Some two_cells\<rparr>"
  have ts: "tile_size c = 16" by (simp add: c_def tile_size_def TILE_SIZE_def)
  have 1: "canvas_surface c = Some two_cells" by (simp add: c_def)
  have 2: "0 < tile_size c" by (simp add: ts)
  have 3: "in_bounds two_cells (3, 4)" by (simp add: in_bounds_def two_cells_def)
  have 4: "get_tile_surface_from_canvas c (3 div tile_size c * tile_size c)
             (4 div tile_size c * tile_size c) =
           Inr (blit_area \<lparr>sw = 16, sh = 16, spix = (\<lambda>p. transparent), sid = Lifted 0 0\<rparr> two_cells (0, 0)
                  (0, 0, 16, 16))"
    using get_tile_surface_from_canvas_ok [OF 1, of 0 0] by (simp add: ts)
  have 6: "\<not> in_bounds two_cells (40, 5)" by (simp add: in_bounds_def two_cells_def)
  show ?thesis
    using drag_released_outside_reverts [OF 1 2 3 4 two_cells_left_tile_visible 6,
        of "[(10, 10), (40, 5)]"]
    unfolding c_def .
qed

subsection \<open>Releasing a dragged tile over a cell\<close>

text \<open>
  C2 (amended). A press of the left button on a cell A that holds a visible pixel, then
  any pointer moves, then a release over a cell B: the held tile is the content of A
  before the press. For A = B the canvas is restored unchanged. For A \<noteq> B every pixel
  of A is left transparent, and every pixel of B is the blend of the tile's pixel over
  the pixel that B had before; it is exactly the tile's pixel wherever B's pixel had
  alpha 0 or the tile's pixel has alpha 255.
\<close>

theorem drag_released_on_cell:
  assumes "canvas_surface c = Some cv" "t = tile_size c" "0 < t"
    and "in_bounds cv (mx, my)" "in_bounds cv (ux, uy)"
    and "ox = mx div t * t" "oy = my div t * t" "dx = ux div t * t" "dy = uy div t * t"
    and "get_tile_surface_from_canvas c ox oy = Inr tile" "is_surface_nonempty tile"
  shows "\<exists>c' cv'. handle_events c (MOUSEBUTTONDOWN 1 (mx, my) # map MOUSEMOTION moves
                                      @ [MOUSEBUTTONUP 1 (ux, uy)]) = Inr c'
          \<and> canvas_surface c' = Some cv' \<and> \<not> canvas_dragging c'
          \<and> (\<forall>i j. 0 \<le> i \<and> i < t \<and> 0 \<le> j \<and> j < t \<longrightarrow>
                spix tile (i, j) = (if in_bounds cv (ox + i, oy + j)
                                    then spix cv (ox + i, oy + j) else transparent))
          \<and> ((ox, oy) = (dx, dy) \<longrightarrow> cv' = cv)
          \<and> ((ox, oy) \<noteq> (dx, dy) \<longrightarrow>
                (\<forall>i j. 0 \<le> i \<and> i < t \<and> 0 \<le> j \<and> j < t \<and> in_bounds cv (ox + i, oy + j) \<longrightarrow>
                   spix cv' (ox + i, oy + j) = transparent)
              \<and> (\<forall>i j. 0 \<le> i \<and> i < t \<and> 0 \<le> j \<and> j < t \<and> in_bounds cv (dx + i, dy + j) \<longrightarrow>
                   spix cv' (dx + i, dy + j) =
                     ALPHA_BLEND (spix tile (i, j)) (spix cv (dx + i, dy + j))
                 \<and> (alpha (spix cv (dx + i, dy + j)) = 0 \<or> alpha (spix tile (i, j)) = 255 \<longrightarrow>
                      spix cv' (dx + i, dy + j) = spix tile (i, j))))"
proof -
  have tile: "tile = blit_area \<lparr>sw = t, sh = t, spix = (\<lambda>p. transparent), sid = Lifted ox oy\<rparr> cv (0, 0) (ox, oy, t, t)"
    using assms(1,2,3,10) get_tile_surface_from_canvas_ok [of c cv ox oy] by simp
  define cv1 where "cv1 = fill cv transparent (ox, oy, t, t)"
  define cv' where "cv' = blit cv1 tile (dx, dy)"
  define c1 where "c1 = c\<lparr>canvas_selected_tile := Some tile, canvas_selected_orig := Some (ox, oy),
                  canvas_dragging := True, canvas_drag_mouse := (mx, my),
                  canvas_surface := Some cv1\<rparr>"
  have down: "handle_event c (MOUSEBUTTONDOWN 1 (mx, my)) = Inr c1"
    unfolding c1_def cv1_def assms(2)
    by (rule on_left_down_canvas_lift [OF assms(1) _ assms(4)])
       (use tile assms in \<open>simp_all\<close>)
  obtain m where moves: "handle_events c1 (map MOUSEMOTION moves @ [MOUSEBUTTONUP 1 (ux, uy)])
        = handle_events (c1\<lparr>canvas_drag_mouse := m\<rparr>) [MOUSEBUTTONUP 1 (ux, uy)]"
    using handle_moves by blast
  have up: "handle_event (c1\<lparr>canvas_drag_mouse := m\<rparr>) (MOUSEBUTTONUP 1 (ux, uy)) =
          Inr (c1\<lparr>canvas_drag_mouse := m, canvas_surface := Some cv',
                 canvas_selected_tile := None, canvas_selected_orig := None,
                 canvas_dragging := False\<rparr>)"
    using assms(2,3,5,8,9)
      on_mouse_up_drop [of "c1\<lparr>canvas_drag_mouse := m\<rparr>" cv1 tile "(ox, oy)" ux uy]
    by (simp add: c1_def cv1_def cv'_def)
  have run: "handle_events c (MOUSEBUTTONDOWN 1 (mx, my) # map MOUSEMOTION moves
                                      @ [MOUSEBUTTONUP 1 (ux, uy)]) =
          Inr (c1\<lparr>canvas_drag_mouse := m, canvas_surface := Some cv',
                 canvas_selected_tile := None, canvas_selected_orig := None,
                 canvas_dragging := False\<rparr>)"
    using down moves up by simp
  have held: "spix tile (i, j) = (if in_bounds cv (ox + i, oy + j)
                                    then spix cv (ox + i, oy + j) else transparent)"
    if "0 \<le> i \<and> i < t \<and> 0 \<le> j \<and> j < t" for i j
    using that by (simp add: tile spix_lifted_tile)
  have same: "cv' = cv" if "(ox, oy) = (dx, dy)"
    using that unfolding cv'_def cv1_def tile by (simp add: put_back_restores)
  have mx0: "0 \<le> mx" "0 \<le> my" "0 \<le> ux" "0 \<le> uy"
    using assms(4,5) by (simp_all add: in_bounds_def)
  have apart: False
    if ne: "(ox, oy) \<noteq> (dx, dy)"
      and x: "ox \<le> x" "x < ox + t" "dx \<le> x" "x < dx + t"
      and y: "oy \<le> y" "y < oy + t" "dy \<le> y" "y < dy + t" for x y
  proof -
    have "ox = dx" using assms(3,6,8) x by (intro aligned_cell_same [of t ox _ dx _ x]) simp_all
    moreover have "oy = dy" using assms(3,7,9) y by (intro aligned_cell_same [of t oy _ dy _ y]) simp_all
    ultimately show False using ne by simp
  qed
  have cleared: "spix cv' (ox + i, oy + j) = transparent"
    if ne: "(ox, oy) \<noteq> (dx, dy)" and ij: "0 \<le> i \<and> i < t \<and> 0 \<le> j \<and> j < t \<and> in_bounds cv (ox + i, oy + j)"
    for i j
  proof -
    have "\<not> in_bounds tile (ox + i - dx, oy + j - dy)"
    proof
      assume "in_bounds tile (ox + i - dx, oy + j - dy)"
      then have "dx \<le> ox + i" "ox + i < dx + t" "dy \<le> oy + j" "oy + j < dy + t"
        by (simp_all add: tile in_bounds_lifted_tile)
      then show False using apart [OF ne, of "ox + i" "oy + j"] ij by simp
    qed
    then have "spix cv' (ox + i, oy + j) = spix cv1 (ox + i, oy + j)"
      by (simp add: cv'_def spix_blit)
    also have "\<dots> = transparent" using ij by (simp add: cv1_def spix_fill)
    finally show ?thesis .
  qed
  have dropped: "spix cv' (dx + i, dy + j) = ALPHA_BLEND (spix tile (i, j)) (spix cv (dx + i, dy + j))"
    if ne: "(ox, oy) \<noteq> (dx, dy)" and ij: "0 \<le> i \<and> i < t \<and> 0 \<le> j \<and> j < t \<and> in_bounds cv (dx + i, dy + j)"
    for i j
  proof -
    have "in_bounds tile (i, j)" using ij by (simp add: tile in_bounds_lifted_tile)
    then have "spix cv' (dx + i, dy + j) = ALPHA_BLEND (spix tile (i, j)) (spix cv1 (dx + i, dy + j))"
      using ij by (simp add: cv'_def spix_blit cv1_def)
    moreover have "spix cv1 (dx + i, dy + j) = spix cv (dx + i, dy + j)"
    proof -
      have "\<not> (ox \<le> dx + i \<and> dx + i < ox + t \<and> oy \<le> dy + j \<and> dy + j < oy + t)"
        using apart [OF ne, of "dx + i" "dy + j"] ij by auto
      then show ?thesis by (auto simp: cv1_def spix_fill)
    qed
    ultimately show ?thesis by simp
  qed
  show ?thesis
  proof (intro exI conjI allI impI)
    show "handle_events c (MOUSEBUTTONDOWN 1 (mx, my) # map MOUSEMOTION moves
                                      @ [MOUSEBUTTONUP 1 (ux, uy)]) =
          Inr (c1\<lparr>canvas_drag_mouse := m, canvas_surface := Some cv',
                 canvas_selected_tile := None, canvas_selected_orig := None,
                 canvas_dragging := False\<rparr>)"
      by (rule run)
    show "canvas_surface (c1\<lparr>canvas_drag_mouse := m, canvas_surface := Some cv',
                 canvas_selected_tile := None, canvas_selected_orig := None,
                 canvas_dragging := False\<rparr>) = Some cv'" by simp
    show "\<not> canvas_dragging (c1\<lparr>canvas_drag_mouse := m, canvas_surface := Some cv',
                 canvas_selected_tile := None, canvas_selected_orig := None,
                 canvas_dragging := False\<rparr>)" by simp
  next
    fix i j assume "0 \<le> i \<and> i < t \<and> 0 \<le> j \<and> j < t"
    then show "spix tile (i, j) = (if in_bounds cv (ox + i, oy + j)
                                    then spix cv (ox + i, oy + j) else transparent)"
      by (rule held)
  next
    assume "(ox, oy) = (dx, dy)" then show "cv' = cv" by (rule same)
  next
    fix i j
    assume "(ox, oy) \<noteq> (dx, dy)"
      "0 \<le> i \<and> i < t \<and> 0 \<le> j \<and> j < t \<and> in_bounds cv (ox + i, oy + j)"
    then show "spix cv' (ox + i, oy + j) = transparent" by (rule cleared)
  next
    fix i j
    assume a: "(ox, oy) \<noteq> (dx, dy)"
      "0 \<le> i \<and> i < t \<and> 0 \<le> j \<and> j < t \<and> in_bounds cv (dx + i, dy + j)"
    then show b: "spix cv' (dx + i, dy + j) = ALPHA_BLEND (spix tile (i, j)) (spix cv (dx + i, dy + j))"
      by (rule dropped)
    assume "alpha (spix cv (dx + i, dy + j)) = 0 \<or> alpha (spix tile (i, j)) = 255"
    then show "spix cv' (dx + i, dy + j) = spix tile (i, j)"
      using b by (simp add: ALPHA_BLEND_replaces)
  qed
qed

theorem drag_released_on_cell_witness:
  "\<exists>c' cv'. handle_events (Composer_init\<lparr>canvas_surface := Some two_cells\<rparr>)
               (MOUSEBUTTONDOWN 1 (3, 4) # map MOUSEMOTION [(10, 10)]
                  @ [MOUSEBUTTONUP 1 (20, 5)]) = Inr c'
       \<and> canvas_surface c' = Some cv' \<and> \<not> canvas_dragging c'
       \<and> spix cv' (0, 0) = transparent \<and> spix cv' (16, 0) = red"
proof -
  define c where "c = Composer_init\<lparr>canvas_surface := Some two_cells\<rparr>"
  define tile where "tile = blit_area \<lparr>sw = 16, sh = 16, spix = (\<lambda>p. transparent), sid = Lifted 0 0\<rparr> two_cells (0, 0)
                  (0, 0, 16, 16)"
  have 1: "canvas_surface c = Some two_cells" by (simp add: c_def)
  have 2: "(16::int) = tile_size c" by (simp add: c_def tile_size_def TILE_SIZE_def)
  have 3: "(0::int) < 16" by simp
  have 4: "in_bounds two_cells (3, 4)" by (simp add: in_bounds_def two_cells_def)
  have 5: "in_bounds two_cells (20, 5)" by (simp add: in_bounds_def two_cells_def)
  have 6: "(0::int) = 3 div 16 * 16" "(0::int) = 4 div 16 * 16"
    "(16::int) = 20 div 16 * 16" "(0::int) = 5 div 16 * 16" by simp_all
  have 7: "get_tile_surface_from_canvas c 0 0 = Inr tile"
    using get_tile_surface_from_canvas_ok [OF 1, of 0 0] by (simp add: tile_def)
  have 8: "is_surface_nonempty tile"
    unfolding tile_def by (rule two_cells_left_tile_visible)
  obtain c' cv' where run: "handle_events c (MOUSEBUTTONDOWN 1 (3, 4) # map MOUSEMOTION [(10, 10)]
                  @ [MOUSEBUTTONUP 1 (20, 5)]) = Inr c'" "canvas_surface c' = Some cv'"
      "\<not> canvas_dragging c'"
    and held: "\<forall>i j. 0 \<le> i \<and> i < 16 \<and> 0 \<le> j \<and> j < 16 \<longrightarrow>
                spix tile (i, j) = (if in_bounds two_cells (0 + i, 0 + j)
                                    then spix two_cells (0 + i, 0 + j) else transparent)"
    and moved: "((0::int, 0::int) \<noteq> (16, 0) \<longrightarrow>
                (\<forall>i j. 0 \<le> i \<and> i < 16 \<and> 0 \<le> j \<and> j < 16 \<and> in_bounds two_cells (0 + i, 0 + j) \<longrightarrow>
                   spix cv' (0 + i, 0 + j) = transparent)
              \<and> (\<forall>i j. 0 \<le> i \<and> i < 16 \<and> 0 \<le> j \<and> j < 16 \<and> in_bounds two_cells (16 + i, 0 + j) \<longrightarrow>
                   spix cv' (16 + i, 0 + j) =
                     ALPHA_BLEND (spix tile (i, j)) (spix two_cells (16 + i, 0 + j))
                 \<and> (alpha (spix two_cells (16 + i, 0 + j)) = 0 \<or> alpha (spix tile (i, j)) = 255 \<longrightarrow>
                      spix cv' (16 + i, 0 + j) = spix tile (i, j))))"
    using drag_released_on_cell [OF 1 2 3 4 5 6 7 8, of "[(10, 10)]"] by blast
  have ne: "(0::int, 0::int) \<noteq> (16, 0)" by simp
  have t00: "spix tile (0, 0) = red"
    using held [rule_format, of 0 0] by (simp add: in_bounds_def two_cells_def)
  have a: "spix cv' (0, 0) = transparent"
    using moved ne by (auto simp: in_bounds_def two_cells_def dest!: spec [of _ 0])
  have "alpha (spix two_cells (16 + 0, 0 + 0)) = 0 \<or> alpha (spix tile (0, 0)) = 255"
    by (simp add: t00 red_def alpha_def)
  moreover have "0 \<le> (0::int) \<and> (0::int) < 16 \<and> 0 \<le> (0::int) \<and> (0::int) < 16
       \<and> in_bounds two_cells (16 + 0, 0 + 0)"
    by (simp add: in_bounds_def two_cells_def)
  ultimately have "spix cv' (16 + 0, 0 + 0) = spix tile (0, 0)"
    using moved ne by blast
  then have b: "spix cv' (16, 0) = red" using t00 by simp
  from run a b show ?thesis unfolding c_def by blast
qed

theorem drop_on_filled_cell_counterexample:
  "canvas_pixel (handle_events Composer_init
      [KEY_o ''base.png'' (Inr two_cells), MOUSEBUTTONDOWN 1 (3, 4), MOUSEBUTTONUP 1 (20, 5)])
      (16 + 1, 0) = Some blue
   \<and> canvas_pixel (handle_events Composer_init [KEY_o ''base.png'' (Inr two_cells)]) (0 + 1, 0)
       = Some transparent
   \<and> blue \<noteq> transparent"
proof -
  obtain ts where "handle_events Composer_init
          [KEY_o ''base.png'' (Inr two_cells), MOUSEBUTTONDOWN 1 (3, 4), MOUSEBUTTONUP 1 (20, 5)] =
     Inr (Composer_init\<lparr>base_sheet := Some ts,
            canvas_surface :=
              Some (blit (fill (blit \<lparr>sw = 32, sh = 16, spix = (\<lambda>p. transparent), sid = Canvas (Loaded 0)\<rparr> two_cells (0, 0))
                            transparent (0, 0, 16, 16))
                      (blit_area \<lparr>sw = 16, sh = 16, spix = (\<lambda>p. transparent), sid = Lifted 0 0\<rparr>
                         (blit \<lparr>sw = 32, sh = 16, spix = (\<lambda>p. transparent), sid = Canvas (Loaded 0)\<rparr> two_cells (0, 0))
                         (0, 0) (0, 0, 16, 16))
                      (16, 0)),
            win_w := 308, win_h := 400, canvas_drag_mouse := (3, 4)\<rparr>)"
    using drag_two_cells_run by blast
  then have "canvas_pixel (handle_events Composer_init
      [KEY_o ''base.png'' (Inr two_cells), MOUSEBUTTONDOWN 1 (3, 4), MOUSEBUTTONUP 1 (20, 5)])
      (16 + 1, 0) =
      Some (spix (blit (fill (blit \<lparr>sw = 32, sh = 16, spix = (\<lambda>p. transparent), sid = Canvas (Loaded 0)\<rparr> two_cells (0, 0))
                            transparent (0, 0, 16, 16))
                      (blit_area \<lparr>sw = 16, sh = 16, spix = (\<lambda>p. transparent), sid = Lifted 0 0\<rparr>
                         (blit \<lparr>sw = 32, sh = 16, spix = (\<lambda>p. transparent), sid = Canvas (Loaded 0)\<rparr> two_cells (0, 0))
                         (0, 0) (0, 0, 16, 16))
                      (16, 0)) (17, 0))"
    by (simp only: canvas_pixel_def sum.case composer.simps option.case) simp
  moreover have "spix (blit (fill (blit \<lparr>sw = 32, sh = 16, spix = (\<lambda>p. transparent), sid = Canvas (Loaded 0)\<rparr> two_cells (0, 0))
                            transparent (0, 0, 16, 16))
                      (blit_area \<lparr>sw = 16, sh = 16, spix = (\<lambda>p. transparent), sid = Lifted 0 0\<rparr>
                         (blit \<lparr>sw = 32, sh = 16, spix = (\<lambda>p. transparent), sid = Canvas (Loaded 0)\<rparr> two_cells (0, 0))
                         (0, 0) (0, 0, 16, 16))
                      (16, 0)) (17, 0) = blue"
    by (simp add: spix_blit spix_fill spix_lifted_tile in_bounds_lifted_tile
        in_bounds_def two_cells_def ALPHA_BLEND_clear_src)
  ultimately have 1: "canvas_pixel (handle_events Composer_init
      [KEY_o ''base.png'' (Inr two_cells), MOUSEBUTTONDOWN 1 (3, 4), MOUSEBUTTONUP 1 (20, 5)])
      (16 + 1, 0) = Some blue"
    by simp
  obtain ts' where "handle_event Composer_init (KEY_o ''base.png'' (Inr two_cells)) =
     Inr (Composer_init\<lparr>base_sheet := Some ts',
            canvas_surface :=
              Some (blit \<lparr>sw = 32, sh = 16, spix = (\<lambda>p. transparent), sid = Canvas (Loaded 0)\<rparr> two_cells (0, 0)),
            win_w := 308, win_h := 400\<rparr>)"
    using open_two_cells by blast
  then have "canvas_pixel (handle_events Composer_init [KEY_o ''base.png'' (Inr two_cells)])
      (0 + 1, 0) =
      Some (spix (blit \<lparr>sw = 32, sh = 16, spix = (\<lambda>p. transparent), sid = Canvas (Loaded 0)\<rparr> two_cells (0, 0)) (1, 0))"
    by (simp add: canvas_pixel_def)
  moreover have "spix (blit \<lparr>sw = 32, sh = 16, spix = (\<lambda>p. transparent), sid = Canvas (Loaded 0)\<rparr> two_cells (0, 0)) (1, 0)
      = transparent"
    by (simp add: spix_blit in_bounds_def two_cells_def)
  ultimately have 2: "canvas_pixel (handle_events Composer_init [KEY_o ''base.png'' (Inr two_cells)])
      (0 + 1, 0) = Some transparent"
    by simp
  have 3: "blue \<noteq> transparent" by (simp add: blue_def transparent_def)
  from 1 2 3 show ?thesis by blast
qed

subsection \<open>Writing a tile into a cell\<close>

text \<open>
  C3 (amended). Writing the selected tile into the cell under an in-bounds pointer
  blends every pixel of the tile over the pixel that was there. The cell's pixel becomes
  exactly the tile's pixel, alpha included, wherever the prior pixel had alpha 0 or the
  tile's pixel has alpha 255; a tile pixel of alpha 0 leaves a prior pixel of non-zero
  alpha as it was. Pixels outside the tile's rectangle are untouched.
\<close>

theorem place_tile_blends_into_cell:
  assumes "canvas_surface c = Some cv" "selected_tile c = Some sel" "t = tile_size c" "0 < t"
    and "in_bounds cv (mx, my)" "tx = mx div t * t" "ty = my div t * t"
  shows "\<exists>cv'. place_tile_on_canvas c mx my = Inr (c\<lparr>canvas_surface := Some cv'\<rparr>)
          \<and> sw cv' = sw cv \<and> sh cv' = sh cv
          \<and> (\<forall>i j. in_bounds sel (i, j) \<and> in_bounds cv (tx + i, ty + j) \<longrightarrow>
                spix cv' (tx + i, ty + j) = ALPHA_BLEND (spix sel (i, j)) (spix cv (tx + i, ty + j))
              \<and> (alpha (spix cv (tx + i, ty + j)) = 0 \<or> alpha (spix sel (i, j)) = 255 \<longrightarrow>
                   spix cv' (tx + i, ty + j) = spix sel (i, j))
              \<and> (alpha (spix sel (i, j)) = 0 \<and> alpha (spix cv (tx + i, ty + j)) \<noteq> 0 \<longrightarrow>
                   spix cv' (tx + i, ty + j) = spix cv (tx + i, ty + j)))
          \<and> (\<forall>x y. \<not> in_bounds sel (x - tx, y - ty) \<longrightarrow> spix cv' (x, y) = spix cv (x, y))"
proof -
  define cv' where "cv' = blit cv sel (tx, ty)"
  have place: "place_tile_on_canvas c mx my = Inr (c\<lparr>canvas_surface := Some cv'\<rparr>)"
    using place_tile_on_canvas_inside [OF assms(1,2) _ assms(5)] assms(3,4,6,7)
    by (simp add: cv'_def)
  have blend: "spix cv' (tx + i, ty + j) = ALPHA_BLEND (spix sel (i, j)) (spix cv (tx + i, ty + j))"
    if "in_bounds sel (i, j) \<and> in_bounds cv (tx + i, ty + j)" for i j
    using that by (simp add: cv'_def spix_blit)
  have outside: "spix cv' (x, y) = spix cv (x, y)" if "\<not> in_bounds sel (x - tx, y - ty)" for x y
    using that by (simp add: cv'_def spix_blit)
  show ?thesis
  proof (intro exI [of _ cv'] conjI allI impI)
    show "place_tile_on_canvas c mx my = Inr (c\<lparr>canvas_surface := Some cv'\<rparr>)" by (rule place)
    show "sw cv' = sw cv" "sh cv' = sh cv" by (simp_all add: cv'_def)
  next
    fix i j assume a: "in_bounds sel (i, j) \<and> in_bounds cv (tx + i, ty + j)"
    show b: "spix cv' (tx + i, ty + j) = ALPHA_BLEND (spix sel (i, j)) (spix cv (tx + i, ty + j))"
      using a by (rule blend)
    {
      assume "alpha (spix cv (tx + i, ty + j)) = 0 \<or> alpha (spix sel (i, j)) = 255"
      then show "spix cv' (tx + i, ty + j) = spix sel (i, j)"
        using b by (simp add: ALPHA_BLEND_replaces)
    }
    {
      assume "alpha (spix sel (i, j)) = 0 \<and> alpha (spix cv (tx + i, ty + j)) \<noteq> 0"
      then show "spix cv' (tx + i, ty + j) = spix cv (tx + i, ty + j)"
        using b by (simp add: ALPHA_BLEND_clear_src)
    }
  next
    fix x y assume "\<not> in_bounds sel (x - tx, y - ty)"
    then show "spix cv' (x, y) = spix cv (x, y)" by (rule outside)
  qed
qed

theorem place_tile_blends_into_cell_witness:
  "\<exists>cv'. place_tile_on_canvas
           (Composer_init\<lparr>canvas_surface := Some two_cells,
                           selected_tile := Some (solid 16 16 red)\<rparr>) 3 4 =
         Inr (Composer_init\<lparr>canvas_surface := Some cv',
                             selected_tile := Some (solid 16 16 red)\<rparr>)
       \<and> spix cv' (1, 0) = red \<and> spix cv' (17, 0) = blue"
proof -
  define c where "c = Composer_init\<lparr>canvas_surface := Some two_cells,
                           selected_tile := Some (solid 16 16 red)\<rparr>"
  have 1: "canvas_surface c = Some two_cells" by (simp add: c_def)
  have 2: "selected_tile c = Some (solid 16 16 red)" by (simp add: c_def)
  have 3: "(16::int) = tile_size c" by (simp add: c_def tile_size_def TILE_SIZE_def)
  have 4: "(0::int) < 16" by simp
  have 5: "in_bounds two_cells (3, 4)" by (simp add: in_bounds_def two_cells_def)
  have 6: "(0::int) = 3 div 16 * 16" "(0::int) = 4 div 16 * 16" by simp_all
  obtain cv' where place: "place_tile_on_canvas c 3 4 = Inr (c\<lparr>canvas_surface := Some cv'\<rparr>)"
    and inside: "\<forall>i j. in_bounds (solid 16 16 red) (i, j) \<and> in_bounds two_cells (0 + i, 0 + j) \<longrightarrow>
                spix cv' (0 + i, 0 + j) =
                  ALPHA_BLEND (spix (solid 16 16 red) (i, j)) (spix two_cells (0 + i, 0 + j))
              \<and> (alpha (spix two_cells (0 + i, 0 + j)) = 0 \<or> alpha (spix (solid 16 16 red) (i, j)) = 255 \<longrightarrow>
                   spix cv' (0 + i, 0 + j) = spix (solid 16 16 red) (i, j))
              \<and> (alpha (spix (solid 16 16 red) (i, j)) = 0 \<and> alpha (spix two_cells (0 + i, 0 + j)) \<noteq> 0 \<longrightarrow>
                   spix cv' (0 + i, 0 + j) = spix two_cells (0 + i, 0 + j))"
    and outside: "\<forall>x y. \<not> in_bounds (solid 16 16 red) (x - 0, y - 0) \<longrightarrow>
                    spix cv' (x, y) = spix two_cells (x, y)"
    using place_tile_blends_into_cell [OF 1 2 3 4 5 6] by blast
  have "in_bounds (solid 16 16 red) (1, 0) \<and> in_bounds two_cells (0 + 1, 0 + 0)"
    by (simp add: in_bounds_def solid_def two_cells_def)
  from inside [rule_format, OF this]
  have a: "spix cv' (1, 0) = red"
    by (simp add: solid_def two_cells_def)
  have "\<not> in_bounds (solid 16 16 red) (17 - 0, 0 - 0)"
    by (simp add: in_bounds_def solid_def)
  from outside [rule_format, OF this]
  have b: "spix cv' (17, 0) = blue" by (simp add: two_cells_def)
  from place have "place_tile_on_canvas
           (Composer_init\<lparr>canvas_surface := Some two_cells,
                           selected_tile := Some (solid 16 16 red)\<rparr>) 3 4 =
         Inr (Composer_init\<lparr>canvas_surface := Some cv',
                             selected_tile := Some (solid 16 16 red)\<rparr>)"
    by (simp add: c_def)
  with a b show ?thesis by blast
qed

theorem place_on_filled_cell_counterexample:
  "selected_pixel (handle_events Composer_init
      [KEY_o ''base.png'' (Inr two_cells), KEY_a [(''tiles.png'', Inr two_cells)],
       KEY_number K_1]) (1, 0) = Some transparent
   \<and> canvas_pixel (then_place (handle_events Composer_init
      [KEY_o ''base.png'' (Inr two_cells), KEY_a [(''tiles.png'', Inr two_cells)],
       KEY_number K_1]) 20 5) (16 + 1, 0) = Some blue
   \<and> blue \<noteq> transparent"
proof -
  define cv0 where "cv0 = blit \<lparr>sw = sw two_cells, sh = sh two_cells, spix = (\<lambda>p. transparent), sid = Canvas (sid two_cells)\<rparr>
                            two_cells (0, 0)"
  define sel where "sel = blit_area \<lparr>sw = 16, sh = 16, spix = (\<lambda>p. transparent), sid = Tile (sid two_cells) 0 0\<rparr> two_cells (0, 0)
                            (0, 0, 16, 16)"
  have "0 \<le> sw two_cells" "0 \<le> sh two_cells" by (simp_all add: two_cells_def)
  from palette_setup_run [OF this, of two_cells]
  obtain c where run: "handle_events Composer_init
      [KEY_o ''base.png'' (Inr two_cells), KEY_a [(''tiles.png'', Inr two_cells)],
       KEY_number K_1] = Inr c"
    and c: "canvas_surface c = Some cv0" "selected_tile c = Some sel" "tile_size c = 16"
    unfolding cv0_def sel_def by blast
  have "spix sel (1, 0) = transparent"
    by (simp add: sel_def spix_lifted_tile in_bounds_def two_cells_def)
  then have 1: "selected_pixel (handle_events Composer_init
      [KEY_o ''base.png'' (Inr two_cells), KEY_a [(''tiles.png'', Inr two_cells)],
       KEY_number K_1]) (1, 0) = Some transparent"
    using run c by (simp add: selected_pixel_def)
  have inb: "in_bounds cv0 (20, 5)" by (simp add: cv0_def in_bounds_def two_cells_def)
  have place: "place_tile_on_canvas c 20 5 = Inr (c\<lparr>canvas_surface := Some (blit cv0 sel (16, 0))\<rparr>)"
    using place_tile_on_canvas_inside [OF c(1) c(2) _ inb] c(3) by simp
  have "spix (blit cv0 sel (16, 0)) (17, 0) = blue"
    by (simp add: spix_blit sel_def cv0_def spix_lifted_tile in_bounds_lifted_tile in_bounds_def
        two_cells_def ALPHA_BLEND_clear_src)
  then have 2: "canvas_pixel (then_place (handle_events Composer_init
      [KEY_o ''base.png'' (Inr two_cells), KEY_a [(''tiles.png'', Inr two_cells)],
       KEY_number K_1]) 20 5) (16 + 1, 0) = Some blue"
    using run place by (simp add: then_place_def canvas_pixel_def)
  have 3: "blue \<noteq> transparent" by (simp add: blue_def transparent_def)
  from 1 2 3 show ?thesis by blast
qed

subsection \<open>Placing a tile twice\<close>

text \<open>
  C4 (amended). For a selected tile whose pixels each have alpha 0 or alpha 255, placing
  it twice in succession at the same pointer position gives the same result as placing
  it once, on every canvas and in every state.
\<close>

theorem place_twice_binary_alpha:
  assumes "selected_tile c = Some sel"
    and "\<forall>i j. in_bounds sel (i, j) \<longrightarrow> alpha (spix sel (i, j)) = 0 \<or> alpha (spix sel (i, j)) = 255"
  shows "then_place (place_tile_on_canvas c mx my) mx my = place_tile_on_canvas c mx my"
proof (cases "canvas_surface c")
  case None
  then show ?thesis by (simp add: then_place_def place_tile_on_canvas_def)
next
  case (Some cv)
  show ?thesis
  proof (cases "tile_size c = 0")
    case True
    then show ?thesis
      using Some assms(1) by (simp add: then_place_def place_tile_on_canvas_def py_floordiv_def)
  next
    case False
    define tx where "tx = mx div tile_size c * tile_size c"
    define ty where "ty = my div tile_size c * tile_size c"
    show ?thesis
    proof (cases "tx < 0 \<or> ty < 0 \<or> tx \<ge> sw cv \<or> ty \<ge> sh cv")
      case True
      then have "place_tile_on_canvas c mx my = Inr c"
        using Some assms(1) False
        by (auto simp: place_tile_on_canvas_def py_floordiv_def Let_def tx_def ty_def)
      then show ?thesis by (simp add: then_place_def)
    next
      case inside: False
      then have once: "place_tile_on_canvas c mx my =
                   Inr (c\<lparr>canvas_surface := Some (blit cv sel (tx, ty))\<rparr>)"
        using Some assms(1) False
        by (auto simp: place_tile_on_canvas_def py_floordiv_def Let_def tx_def ty_def)
      have "place_tile_on_canvas (c\<lparr>canvas_surface := Some (blit cv sel (tx, ty))\<rparr>) mx my =
              Inr (c\<lparr>canvas_surface := Some (blit (blit cv sel (tx, ty)) sel (tx, ty))\<rparr>)"
        using inside assms(1) False
        by (auto simp: place_tile_on_canvas_def py_floordiv_def Let_def tx_def ty_def)
      then show ?thesis
        using once blit_twice [OF assms(2)] by (simp add: then_place_def)
    qed
  qed
qed

theorem place_twice_binary_alpha_witness:
  "then_place (place_tile_on_canvas
       (Composer_init\<lparr>canvas_surface := Some two_cells,
                       selected_tile := Some (solid 16 16 red)\<rparr>) 20 5) 20 5 =
   place_tile_on_canvas
       (Composer_init\<lparr>canvas_surface := Some two_cells,
                       selected_tile := Some (solid 16 16 red)\<rparr>) 20 5
   \<and> canvas_pixel (place_tile_on_canvas
       (Composer_init\<lparr>canvas_surface := Some two_cells,
                       selected_tile := Some (solid 16 16 red)\<rparr>) 20 5) (17, 0) = Some red"
proof -
  define c where "c = Composer_init\<lparr>canvas_surface := Some two_cells,
                       selected_tile := Some (solid 16 16 red)\<rparr>"
  have 1: "selected_tile c = Some (solid 16 16 red)" by (simp add: c_def)
  have 2: "\<forall>i j. in_bounds (solid 16 16 red) (i, j) \<longrightarrow>
             alpha (spix (solid 16 16 red) (i, j)) = 0 \<or> alpha (spix (solid 16 16 red) (i, j)) = 255"
    by (simp add: solid_def)
  have a: "then_place (place_tile_on_canvas c 20 5) 20 5 = place_tile_on_canvas c 20 5"
    by (rule place_twice_binary_alpha [OF 1 2])
  have "place_tile_on_canvas c 20 5 =
          Inr (c\<lparr>canvas_surface := Some (blit two_cells (solid 16 16 red) (16, 0))\<rparr>)"
    using place_tile_on_canvas_inside [of c two_cells "solid 16 16 red" 20 5]
    by (simp add: c_def tile_size_def TILE_SIZE_def in_bounds_def two_cells_def)
  moreover have "spix (blit two_cells (solid 16 16 red) (16, 0)) (17, 0) = red"
    by (simp add: spix_blit in_bounds_def two_cells_def solid_def ALPHA_BLEND_opaque_src)
  ultimately have b: "canvas_pixel (place_tile_on_canvas c 20 5) (17, 0) = Some red"
    by (simp add: canvas_pixel_def)
  from a b show ?thesis unfolding c_def by simp
qed

theorem place_twice_blends_counterexample:
  "canvas_pixel (then_place (handle_events Composer_init
      [KEY_o ''base.png'' (Inr (solid 16 16 black)),
       KEY_a [(''tiles.png'', Inr (solid 16 16 half_red))], KEY_number K_1]) 3 4) (0, 0)
     = Some (128, 0, 0, 255)
   \<and> canvas_pixel (then_place (then_place (handle_events Composer_init
      [KEY_o ''base.png'' (Inr (solid 16 16 black)),
       KEY_a [(''tiles.png'', Inr (solid 16 16 half_red))], KEY_number K_1]) 3 4) 3 4) (0, 0)
     = Some (192, 0, 0, 255)"
proof -
  define cv0 where "cv0 = blit \<lparr>sw = sw (solid 16 16 black), sh = sh (solid 16 16 black),
                                spix = (\<lambda>p. transparent), sid = Canvas (sid (solid 16 16 black))\<rparr> (solid 16 16 black) (0, 0)"
  define sel where "sel = blit_area \<lparr>sw = 16, sh = 16, spix = (\<lambda>p. transparent), sid = Tile (sid (solid 16 16 half_red)) 0 0\<rparr>
                            (solid 16 16 half_red) (0, 0) (0, 0, 16, 16)"
  have "0 \<le> sw (solid 16 16 black)" "0 \<le> sh (solid 16 16 black)" by (simp_all add: solid_def)
  from palette_setup_run [OF this, of "solid 16 16 half_red"]
  obtain c where run: "handle_events Composer_init
      [KEY_o ''base.png'' (Inr (solid 16 16 black)),
       KEY_a [(''tiles.png'', Inr (solid 16 16 half_red))], KEY_number K_1] = Inr c"
    and c: "canvas_surface c = Some cv0" "selected_tile c = Some sel" "tile_size c = 16"
    unfolding cv0_def sel_def by blast
  define cv1 where "cv1 = blit cv0 sel (0, 0)"
  define c1 where "c1 = c\<lparr>canvas_surface := Some cv1\<rparr>"
  have inb: "in_bounds cv0 (3, 4)" "in_bounds cv1 (3, 4)"
    by (simp_all add: cv1_def cv0_def in_bounds_def solid_def)
  have once: "place_tile_on_canvas c 3 4 = Inr c1"
    using place_tile_on_canvas_inside [OF c(1) c(2) _ inb(1)] c(3) by (simp add: c1_def cv1_def)
  have twice: "place_tile_on_canvas c1 3 4 = Inr (c1\<lparr>canvas_surface := Some (blit cv1 sel (0, 0))\<rparr>)"
    using place_tile_on_canvas_inside [of c1 cv1 sel 3 4] inb(2) c by (simp add: c1_def)
  have s00: "spix sel (0, 0) = half_red"
    by (simp add: sel_def spix_lifted_tile in_bounds_def solid_def)
  have p0: "spix cv0 (0, 0) = black"
    by (simp add: cv0_def spix_blit in_bounds_def solid_def)
  have p1: "spix cv1 (0, 0) = (128, 0, 0, 255)"
    using s00 p0 blend_half_red_once
    by (simp add: cv1_def spix_blit in_bounds_def sel_def cv0_def solid_def)
  have p2: "spix (blit cv1 sel (0, 0)) (0, 0) = (192, 0, 0, 255)"
    using s00 p1 blend_half_red_twice
    by (simp add: spix_blit in_bounds_def sel_def cv1_def cv0_def solid_def)
  have 1: "canvas_pixel (then_place (handle_events Composer_init
      [KEY_o ''base.png'' (Inr (solid 16 16 black)),
       KEY_a [(''tiles.png'', Inr (solid 16 16 half_red))], KEY_number K_1]) 3 4) (0, 0)
     = Some (128, 0, 0, 255)"
    using run once p1 by (simp add: then_place_def canvas_pixel_def c1_def)
  have 2: "canvas_pixel (then_place (then_place (handle_events Composer_init
      [KEY_o ''base.png'' (Inr (solid 16 16 black)),
       KEY_a [(''tiles.png'', Inr (solid 16 16 half_red))], KEY_number K_1]) 3 4) 3 4) (0, 0)
     = Some (192, 0, 0, 255)"
    using run once twice p2 by (simp add: then_place_def canvas_pixel_def)
  from 1 2 show ?thesis by blast
qed

subsection \<open>Opening and saving at once\<close>

text \<open>
  C5. Opening a base image and saving at once, before any edit, hands the encoder a
  surface of the size of the base image that holds the same pixel, alpha included, at
  every coordinate.
\<close>

theorem open_then_save_same_image:
  assumes "0 < tile_size c" "path \<noteq> []" "out \<noteq> []" "0 \<le> sw img" "0 \<le> sh img"
  shows "\<exists>c' cv. handle_event c (KEY_o path (Inr img)) = Inr c'
                 \<and> save_canvas c' out = Some cv \<and> same_image cv img"
proof -
  obtain ts where
    "open_base c path (Inr img) =
       Inr (None, c\<lparr>base_sheet := Some ts,
                     canvas_surface :=
                       Some (blit \<lparr>sw = sw img, sh = sh img, spix = (\<lambda>p. transparent), sid = Canvas (sid img)\<rparr> img (0, 0)),
                     win_w := sw img + (PALETTE_THUMB * PALETTE_COLS + 20),
                     win_h := max (sh img) 400\<rparr>)"
    using open_base_ok [OF assms(1,2,4,5)] by blast
  then show ?thesis
    using assms(3) same_image_blit_onto_blank [of img] by (simp add: save_canvas_def)
qed

theorem open_then_save_same_image_witness:
  "0 < tile_size Composer_init \<and> ''base.png'' \<noteq> [] \<and> ''out.png'' \<noteq> []
   \<and> 0 \<le> sw two_cells \<and> 0 \<le> sh two_cells
   \<and> (\<exists>c' cv. handle_event Composer_init (KEY_o ''base.png'' (Inr two_cells)) = Inr c'
               \<and> save_canvas c' ''out.png'' = Some cv \<and> same_image cv two_cells)"
proof -
  have h: "0 < tile_size Composer_init" "''base.png'' \<noteq> []" "''out.png'' \<noteq> []"
    "0 \<le> sw two_cells" "0 \<le> sh two_cells"
    by (simp_all add: Composer_init_def tile_size_def TILE_SIZE_def two_cells_def)
  from h open_then_save_same_image [OF h] show ?thesis by blast
qed

subsection \<open>The erase key while a tile is held\<close>

text \<open>
  C6 (amended). While a tile is held, the erase key leaves the held tile, its origin and
  the dragging flag as they are, and it has no effect at all when the pointer is outside
  the canvas; when the pointer is over the canvas it clears the cell under the pointer,
  exactly as it does when nothing is held.
\<close>

theorem erase_while_dragging:
  assumes "canvas_dragging c" "canvas_surface c = Some cv" "0 < tile_size c"
  shows "handle_event c (KEY_x (mx, my)) =
           Inr (if in_bounds cv (mx, my)
                then c\<lparr>canvas_surface :=
                         Some (fill cv transparent
                                 (mx div tile_size c * tile_size c, my div tile_size c * tile_size c,
                                  tile_size c, tile_size c))\<rparr>
                else c)
         \<and> handle_event (c\<lparr>canvas_dragging := False\<rparr>) (KEY_x (mx, my)) =
             (case handle_event c (KEY_x (mx, my)) of
                Inl e \<Rightarrow> Inl e | Inr c' \<Rightarrow> Inr (c'\<lparr>canvas_dragging := False\<rparr>))"
proof (cases "in_bounds cv (mx, my)")
  case True
  then show ?thesis
    using assms on_key_x_inside [of c cv mx my]
      on_key_x_inside [of "c\<lparr>canvas_dragging := False\<rparr>" cv mx my]
    by simp
next
  case False
  then show ?thesis
    using assms on_key_x_outside [of c cv mx my]
      on_key_x_outside [of "c\<lparr>canvas_dragging := False\<rparr>" cv mx my]
    by simp
qed

theorem erase_while_dragging_witness:
  "handle_event (Composer_init\<lparr>canvas_surface := Some two_cells, canvas_dragging := True\<rparr>)
     (KEY_x (20, 5)) =
   Inr (Composer_init\<lparr>canvas_surface := Some (fill two_cells transparent (16, 0, 16, 16)),
                       canvas_dragging := True\<rparr>)"
proof -
  define c where "c = Composer_init\<lparr>canvas_surface := Some two_cells, canvas_dragging := True\<rparr>"
  have 1: "canvas_dragging c" by (simp add: c_def)
  have 2: "canvas_surface c = Some two_cells" by (simp add: c_def)
  have ts: "tile_size c = 16" by (simp add: c_def tile_size_def TILE_SIZE_def)
  have 3: "0 < tile_size c" by (simp add: ts)
  have "in_bounds two_cells (20, 5)" by (simp add: in_bounds_def two_cells_def)
  then have "handle_event c (KEY_x (20, 5)) =
               Inr (c\<lparr>canvas_surface := Some (fill two_cells transparent (16, 0, 16, 16))\<rparr>)"
    using erase_while_dragging [OF 1 2 3, of 20 5] by (simp add: ts)
  then show ?thesis by (simp add: c_def)
qed

theorem erase_while_dragging_counterexample:
  "is_dragging (handle_events Composer_init
      [KEY_o ''base.png'' (Inr two_cells), MOUSEBUTTONDOWN 1 (3, 4)])
   \<and> canvas_pixel (handle_events Composer_init
      [KEY_o ''base.png'' (Inr two_cells), MOUSEBUTTONDOWN 1 (3, 4)]) (17, 0) = Some blue
   \<and> canvas_pixel (handle_events Composer_init
      [KEY_o ''base.png'' (Inr two_cells), MOUSEBUTTONDOWN 1 (3, 4), KEY_x (20, 5)]) (17, 0)
       = Some transparent
   \<and> blue \<noteq> transparent"
proof -
  define cv1 where "cv1 = fill (blit \<lparr>sw = 32, sh = 16, spix = (\<lambda>p. transparent), sid = Canvas (Loaded 0)\<rparr> two_cells (0, 0))
                            transparent (0, 0, 16, 16)"
  obtain c1 where run: "handle_events Composer_init
          [KEY_o ''base.png'' (Inr two_cells), MOUSEBUTTONDOWN 1 (3, 4)] = Inr c1"
    and c1: "canvas_surface c1 = Some cv1" "canvas_dragging c1" "tile_size c1 = 16"
    using lift_two_cells_run unfolding cv1_def
    by (auto simp: Composer_init_def tile_size_def TILE_SIZE_def)
  have 1: "is_dragging (handle_events Composer_init
      [KEY_o ''base.png'' (Inr two_cells), MOUSEBUTTONDOWN 1 (3, 4)])"
    using run c1 by (simp add: is_dragging_def)
  have "spix cv1 (17, 0) = blue"
    by (simp add: cv1_def spix_fill spix_blit in_bounds_def two_cells_def)
  then have 2: "canvas_pixel (handle_events Composer_init
      [KEY_o ''base.png'' (Inr two_cells), MOUSEBUTTONDOWN 1 (3, 4)]) (17, 0) = Some blue"
    using run c1 by (simp add: canvas_pixel_def)
  have inb: "in_bounds cv1 (20, 5)" by (simp add: cv1_def in_bounds_def)
  have "handle_events Composer_init
      ([KEY_o ''base.png'' (Inr two_cells), MOUSEBUTTONDOWN 1 (3, 4)] @ [KEY_x (20, 5)]) =
        handle_events c1 [KEY_x (20, 5)]"
    using run by (rule handle_events_append)
  also have "\<dots> = Inr (c1\<lparr>canvas_surface := Some (fill cv1 transparent (16, 0, 16, 16))\<rparr>)"
    using on_key_x_inside [OF c1(1) _ inb] c1(3) by simp
  finally have "canvas_pixel (handle_events Composer_init
      [KEY_o ''base.png'' (Inr two_cells), MOUSEBUTTONDOWN 1 (3, 4), KEY_x (20, 5)]) (17, 0)
       = Some (spix (fill cv1 transparent (16, 0, 16, 16)) (17, 0))"
    by (simp add: canvas_pixel_def)
  moreover have "spix (fill cv1 transparent (16, 0, 16, 16)) (17, 0) = transparent"
    by (simp add: spix_fill cv1_def in_bounds_def)
  ultimately have 3: "canvas_pixel (handle_events Composer_init
      [KEY_o ''base.png'' (Inr two_cells), MOUSEBUTTONDOWN 1 (3, 4), KEY_x (20, 5)]) (17, 0)
       = Some transparent" by simp
  have 4: "blue \<noteq> transparent" by (simp add: blue_def transparent_def)
  from 1 2 3 4 show ?thesis by blast
qed

subsection \<open>Slicing a sheet into tiles\<close>

text \<open>
  C7 (amended). For a source image of width \<open>W\<close> and height \<open>H\<close> and a tile size \<open>t\<close> with
  \<open>0 < t < 2^31\<close>, slicing succeeds and yields exactly \<open>max 1 (H div t) * max 1 (W div t)\<close>
  tiles in row-major order: the tile at index \<open>row * cols + col\<close> is the one the loop
  body makes for that column and row, a \<open>t\<close> by \<open>t\<close> surface holding the source pixels
  from the origin \<open>(col * t, row * t)\<close>, transparent where that leaves the source.
\<close>

theorem TileSheet_slices_row_major:
  assumes "0 < t" "t < 2 ^ 31"
  shows "\<exists>ts. TileSheet_init path (Inr src) t = Inr ts
          \<and> ts_rows ts = max 1 (sh src div t) \<and> ts_cols ts = max 1 (sw src div t)
          \<and> int (length (ts_tiles ts)) = max 1 (sh src div t) * max 1 (sw src div t)
          \<and> (\<forall>row col. 0 \<le> row \<and> row < ts_rows ts \<and> 0 \<le> col \<and> col < ts_cols ts \<longrightarrow>
                slice_tile src t (col, row) = Inr (ts_tiles ts ! nat (row * ts_cols ts + col))
              \<and> sw (ts_tiles ts ! nat (row * ts_cols ts + col)) = t
              \<and> sh (ts_tiles ts ! nat (row * ts_cols ts + col)) = t
              \<and> (\<forall>i j. 0 \<le> i \<and> i < t \<and> 0 \<le> j \<and> j < t \<longrightarrow>
                    spix (ts_tiles ts ! nat (row * ts_cols ts + col)) (i, j) =
                      (if in_bounds src (col * t + i, row * t + j)
                       then spix src (col * t + i, row * t + j) else transparent)))"
proof -
  define rows where "rows = max 1 (sh src div t)"
  define cols where "cols = max 1 (sw src div t)"
  define mk where "mk = (\<lambda>xy. blit_area \<lparr>sw = t, sh = t, spix = (\<lambda>p. transparent),
                                           sid = Tile (sid src) (fst xy) (snd xy)\<rparr> src (0, 0)
                            (fst xy * t, snd xy * t, t, t))"
  define ts where "ts = \<lparr>ts_path = path, ts_tile_size = t, ts_surface = src,
                          ts_width = sw src, ts_height = sh src, ts_cols = cols, ts_rows = rows,
                          ts_tiles = map mk (loop_cells rows cols)\<rparr>"
  have t0: "0 \<le> t" using assms by simp
  have pos: "1 \<le> rows" "1 \<le> cols" by (simp_all add: rows_def cols_def)
  have init: "TileSheet_init path (Inr src) t = Inr ts"
    using TileSheet_init_ok [OF assms, of path src] by (simp add: ts_def rows_def cols_def mk_def)
  have len: "int (length (ts_tiles ts)) = rows * cols"
    using pos by (simp add: ts_def length_loop_cells nat_mult_distrib)
  have cell: "slice_tile src t (col, row) = Inr (ts_tiles ts ! nat (row * ts_cols ts + col))"
    if "0 \<le> row" "row < rows" "0 \<le> col" "col < cols" for row col
  proof -
    have "nat (row * cols + col) < length (loop_cells rows cols)"
    proof -
      have "row * cols + col < rows * cols"
      proof -
        have "row * cols + col < row * cols + cols" using that by simp
        also have "\<dots> = (row + 1) * cols" by (simp add: algebra_simps)
        also have "\<dots> \<le> rows * cols" using that pos by (intro mult_right_mono) simp_all
        finally show ?thesis .
      qed
      then show ?thesis using pos that
        by (simp add: length_loop_cells nat_mult_distrib [symmetric] nat_less_iff)
    qed
    then have "ts_tiles ts ! nat (row * cols + col) = mk (col, row)"
      using that by (simp add: ts_def nth_loop_cells)
    then show ?thesis by (simp add: ts_def slice_tile_ok [OF t0 assms(2)] mk_def)
  qed
  show ?thesis
  proof (intro exI [of _ ts] conjI allI impI)
    show "TileSheet_init path (Inr src) t = Inr ts" by (rule init)
    show "ts_rows ts = max 1 (sh src div t)" by (simp add: ts_def rows_def)
    show "ts_cols ts = max 1 (sw src div t)" by (simp add: ts_def cols_def)
    show "int (length (ts_tiles ts)) = max 1 (sh src div t) * max 1 (sw src div t)"
      using len by (simp add: rows_def cols_def)
  next
    fix row col
    assume a: "0 \<le> row \<and> row < ts_rows ts \<and> 0 \<le> col \<and> col < ts_cols ts"
    then have c: "slice_tile src t (col, row) = Inr (ts_tiles ts ! nat (row * ts_cols ts + col))"
      using cell by (simp add: ts_def)
    show "slice_tile src t (col, row) = Inr (ts_tiles ts ! nat (row * ts_cols ts + col))"
      by (rule c)
    show "sw (ts_tiles ts ! nat (row * ts_cols ts + col)) = t"
      using slice_tile_size [OF t0 assms(2) c] by simp
    show "sh (ts_tiles ts ! nat (row * ts_cols ts + col)) = t"
      using slice_tile_size [OF t0 assms(2) c] by simp
    fix i j
    assume "0 \<le> i \<and> i < t \<and> 0 \<le> j \<and> j < t"
    then show "spix (ts_tiles ts ! nat (row * ts_cols ts + col)) (i, j) =
                 (if in_bounds src (col * t + i, row * t + j)
                  then spix src (col * t + i, row * t + j) else transparent)"
      using slice_tile_pixel [OF t0 assms(2) c] by simp
  qed
qed

theorem TileSheet_slices_row_major_witness:
  "(0::int) < 16 \<and> (16::int) < 2 ^ 31 \<and>
   (\<exists>ts. TileSheet_init ''sheet.png'' (Inr two_cells) 16 = Inr ts
         \<and> ts_rows ts = 1 \<and> ts_cols ts = 2 \<and> int (length (ts_tiles ts)) = 2
         \<and> spix (ts_tiles ts ! 1) (3, 5) = blue)"
proof -
  have h: "(0::int) < 16" "(16::int) < 2 ^ 31" by simp_all
  obtain ts where ts: "TileSheet_init ''sheet.png'' (Inr two_cells) 16 = Inr ts"
      "ts_rows ts = max 1 (sh two_cells div 16)" "ts_cols ts = max 1 (sw two_cells div 16)"
      "int (length (ts_tiles ts)) = max 1 (sh two_cells div 16) * max 1 (sw two_cells div 16)"
      and cells: "\<forall>row col. 0 \<le> row \<and> row < ts_rows ts \<and> 0 \<le> col \<and> col < ts_cols ts \<longrightarrow>
                slice_tile two_cells 16 (col, row) = Inr (ts_tiles ts ! nat (row * ts_cols ts + col))
              \<and> sw (ts_tiles ts ! nat (row * ts_cols ts + col)) = 16
              \<and> sh (ts_tiles ts ! nat (row * ts_cols ts + col)) = 16
              \<and> (\<forall>i j. 0 \<le> i \<and> i < 16 \<and> 0 \<le> j \<and> j < 16 \<longrightarrow>
                    spix (ts_tiles ts ! nat (row * ts_cols ts + col)) (i, j) =
                      (if in_bounds two_cells (col * 16 + i, row * 16 + j)
                       then spix two_cells (col * 16 + i, row * 16 + j) else transparent))"
    using TileSheet_slices_row_major [OF h, of "''sheet.png''" two_cells] by blast
  have sz: "ts_rows ts = 1" "ts_cols ts = 2" "int (length (ts_tiles ts)) = 2"
    using ts by (simp_all add: two_cells_def)
  have "0 \<le> (0::int) \<and> (0::int) < ts_rows ts \<and> 0 \<le> (1::int) \<and> (1::int) < ts_cols ts"
    using sz by simp
  from cells [rule_format, OF this]
  have "\<forall>i j. 0 \<le> i \<and> i < 16 \<and> 0 \<le> j \<and> j < 16 \<longrightarrow>
          spix (ts_tiles ts ! nat (0 * ts_cols ts + 1)) (i, j) =
            (if in_bounds two_cells (1 * 16 + i, 0 * 16 + j)
             then spix two_cells (1 * 16 + i, 0 * 16 + j) else transparent)"
    by blast
  from this [rule_format, of 3 5]
  have "spix (ts_tiles ts ! nat (0 * ts_cols ts + 1)) (3, 5) =
          (if in_bounds two_cells (1 * 16 + 3, 0 * 16 + 5)
           then spix two_cells (1 * 16 + 3, 0 * 16 + 5) else transparent)"
    by simp
  then have "spix (ts_tiles ts ! 1) (3, 5) = blue"
    by (simp add: two_cells_def in_bounds_def)
  with h ts(1) sz show ?thesis by blast
qed

theorem slicing_refused_counterexample:
  "(0::int) < 2147483648
   \<and> TileSheet_init ''sheet.png'' (Inr two_cells) 2147483648 = Inl PygameError"
proof -
  have "pg_IntFromObj 2147483648 = Some (- 2147483648)"
    by (simp add: pg_IntFromObj_def)
  then have "TileSheet_init ''sheet.png'' (Inr two_cells) 2147483648 = Inl PygameError"
    by (intro TileSheet_init_refused [of _ "- 2147483648"]) simp_all
  then show ?thesis by simp
qed

subsection \<open>Invalid tile sizes\<close>

text \<open>
  C8 (amended). For every image and every tile size \<open>t\<close> with \<open>- 2^31 \<le> t \<le> 0\<close>,
  constructing the sheet raises, and the exception comes back to the caller: the division
  by \<open>t = 0\<close> raises \<^verbatim>\<open>ZeroDivisionError\<close>, and for \<open>t < 0\<close> the library refuses the first
  tile surface with \<^verbatim>\<open>pygame.error\<close>; there is no error of the program's own. A
  construction that raises leaves the state as it was: \<open>open_base\<close> shows the error and
  returns the composer unchanged, and \<open>add_palette_sheet\<close>, when the construction of every
  chosen sheet raises, adds no sheet and changes neither the canvas nor the selection
  (only the palette index is clamped and the window resized, as after every call).
  Below \<open>- 2^31\<close> the library reads the size modulo \<open>2^32\<close>, and the construction can succeed.
\<close>

theorem invalid_tile_size_fails:
  assumes "- (2 ^ 31) \<le> t" "t \<le> 0"
  shows "(\<exists>e. TileSheet_init path loaded t = Inl e)
       \<and> TileSheet_init path (Inr src) t = Inl (if t = 0 then ZeroDivisionError else PygameError)
       \<and> (TileSheet_init path loaded (tile_size c) = Inl e \<and> path \<noteq> [] \<longrightarrow>
            open_base c path loaded = Inr (Some e, c))
       \<and> ((\<forall>pl\<in>set paths. \<exists>e. TileSheet_init (fst pl) (snd pl) (tile_size c) = Inl e) \<longrightarrow>
            snd (add_palette_sheet c paths) =
              c\<lparr>palette_index := palette_index (snd (add_palette_sheet c paths)),
                win_w := win_w (snd (add_palette_sheet c paths)),
                win_h := win_h (snd (add_palette_sheet c paths))\<rparr>)"
proof -
  have src: "TileSheet_init path (Inr src) t = Inl (if t = 0 then ZeroDivisionError else PygameError)"
    for src
  proof (cases "t = 0")
    case True
    then show ?thesis by (simp add: TileSheet_init_zero)
  next
    case False
    then have "t < 0" using assms by simp
    then show ?thesis using False TileSheet_init_negative [OF assms(1), of path src] by simp
  qed
  have "\<exists>e. TileSheet_init path loaded t = Inl e"
  proof (cases loaded)
    case (Inl e)
    then show ?thesis by (simp add: TileSheet_init_load_error)
  next
    case (Inr s)
    then show ?thesis using src [of s] by simp
  qed
  then show ?thesis
    using src [of src] open_base_failure [of path loaded c e]
      add_palette_sheet_all_fail [of paths c]
    by blast
qed

theorem invalid_tile_size_fails_witness:
  "- (2 ^ 31) \<le> (- 4 :: int) \<and> (- 4 :: int) \<le> 0
   \<and> TileSheet_init ''a.png'' (Inr two_cells) (- 4) = Inl PygameError
   \<and> TileSheet_init ''b.png'' (Inl LoadError) (tile_size Composer_init) = Inl LoadError
   \<and> open_base Composer_init ''b.png'' (Inl LoadError) = Inr (Some LoadError, Composer_init)
   \<and> palette_sheets (snd (add_palette_sheet Composer_init [(''b.png'', Inl LoadError)])) = []"
proof -
  have h: "- (2 ^ 31) \<le> (- 4 :: int)" "(- 4 :: int) \<le> 0" by simp_all
  have f: "TileSheet_init ''b.png'' (Inl LoadError) (tile_size Composer_init) = Inl LoadError"
    by (simp add: TileSheet_init_load_error)
  have all: "\<forall>pl\<in>set [(''b.png'', Inl LoadError :: error + surface)].
               \<exists>e. TileSheet_init (fst pl) (snd pl) (tile_size Composer_init) = Inl e"
    by (simp add: TileSheet_init_load_error)
  note inst = invalid_tile_size_fails [OF h, of "''b.png''" "Inl LoadError" two_cells
      Composer_init LoadError "[(''b.png'', Inl LoadError)]"]
  note inst2 = invalid_tile_size_fails [OF h, of "''a.png''" "Inr two_cells" two_cells
      Composer_init LoadError "[]"]
  have 1: "TileSheet_init ''a.png'' (Inr two_cells) (- 4) = Inl PygameError"
    using inst2 by simp
  have 2: "open_base Composer_init ''b.png'' (Inl LoadError) = Inr (Some LoadError, Composer_init)"
    using inst f by simp
  have "snd (add_palette_sheet Composer_init [(''b.png'', Inl LoadError)]) =
          Composer_init
            \<lparr>palette_index := palette_index (snd (add_palette_sheet Composer_init [(''b.png'', Inl LoadError)])),
              win_w := win_w (snd (add_palette_sheet Composer_init [(''b.png'', Inl LoadError)])),
              win_h := win_h (snd (add_palette_sheet Composer_init [(''b.png'', Inl LoadError)]))\<rparr>"
    using inst all by blast
  then have "palette_sheets (snd (add_palette_sheet Composer_init [(''b.png'', Inl LoadError)])) =
          palette_sheets (Composer_init
            \<lparr>palette_index := palette_index (snd (add_palette_sheet Composer_init [(''b.png'', Inl LoadError)])),
              win_w := win_w (snd (add_palette_sheet Composer_init [(''b.png'', Inl LoadError)])),
              win_h := win_h (snd (add_palette_sheet Composer_init [(''b.png'', Inl LoadError)]))\<rparr>)"
    by (rule arg_cong)
  then have 3: "palette_sheets (snd (add_palette_sheet Composer_init [(''b.png'', Inl LoadError)])) = []"
    by (simp add: Composer_init_def)
  from h f 1 2 3 show ?thesis by blast
qed

theorem wrapped_tile_size_counterexample:
  "(- 4294967280 :: int) \<le> 0
   \<and> tile_count (TileSheet_init ''a.png'' (Inr two_cells) (- 4294967280)) = Some 1"
proof -
  have "pg_IntFromObj (- 4294967280) = Some 16" by (simp add: pg_IntFromObj_def)
  then obtain ts where "TileSheet_init ''a.png'' (Inr two_cells) (- 4294967280) = Inr ts"
      "length (ts_tiles ts) = 1"
    using TileSheet_init_read [of "- 4294967280" 16 "''a.png''" two_cells]
    by (simp add: length_loop_cells two_cells_def)
  then show ?thesis by (simp add: tile_count_def)
qed

subsection \<open>Selecting from the palette\<close>

text \<open>
  C9 (amended). The palette answers a click only when a base image is open. With no
  canvas, \<open>select_tile_from_palette_coords\<close> returns false and leaves the composer as it
  was for every position, also when loaded sheets are shown and the position is over one of
  their tiles; so does a click left of or above the grid. With a canvas \<open>cv\<close>, a
  click at thumbnail column \<open>col\<close> and row \<open>row\<close> computes the index
  \<open>(row + palette_scroll) * PALETTE_COLS + col\<close> into the tiles of all sheets in order:
  inside the sequence it selects that tile and returns true, outside it returns false and
  leaves the composer, and so the selection, as it was. The selection is the tile
  object itself: when the tiles of the palette are distinct objects, no other index holds
  the selected one.
\<close>

theorem select_tile_from_palette_coords_index:
  "(canvas_surface c = None \<longrightarrow> select_tile_from_palette_coords c mx my = (False, c))
   \<and> (canvas_surface c = Some cv \<and> (mx - sw cv - 10 < 0 \<or> my - 10 < 0) \<longrightarrow>
        select_tile_from_palette_coords c mx my = (False, c))
   \<and> (canvas_surface c = Some cv \<and> 0 \<le> mx - sw cv - 10 \<and> 0 \<le> my - 10
        \<and> col = (mx - sw cv - 10) div PALETTE_THUMB \<and> row = (my - 10) div PALETTE_THUMB
        \<and> idx = (row + palette_scroll c) * PALETTE_COLS + col \<longrightarrow>
        select_tile_from_palette_coords c mx my =
          (if 0 \<le> idx \<and> idx < int (length (all_tiles c))
           then (True, c\<lparr>selected_tile := Some (all_tiles c ! nat idx)\<rparr>)
           else (False, c))
      \<and> (distinct (map sid (all_tiles c)) \<and> 0 \<le> idx \<and> idx < int (length (all_tiles c)) \<longrightarrow>
           (\<forall>j < length (all_tiles c).
              sid (all_tiles c ! j) = sid (all_tiles c ! nat idx) \<longrightarrow> j = nat idx)))"
proof (intro conjI impI allI)
  assume "canvas_surface c = None"
  then show "select_tile_from_palette_coords c mx my = (False, c)"
    by (simp add: select_tile_from_palette_coords_def)
next
  assume "canvas_surface c = Some cv \<and> (mx - sw cv - 10 < 0 \<or> my - 10 < 0)"
  then show "select_tile_from_palette_coords c mx my = (False, c)"
    by (auto simp: select_tile_from_palette_coords_def Let_def)
next
  assume "canvas_surface c = Some cv \<and> 0 \<le> mx - sw cv - 10 \<and> 0 \<le> my - 10
        \<and> col = (mx - sw cv - 10) div PALETTE_THUMB \<and> row = (my - 10) div PALETTE_THUMB
        \<and> idx = (row + palette_scroll c) * PALETTE_COLS + col"
  then show "select_tile_from_palette_coords c mx my =
          (if 0 \<le> idx \<and> idx < int (length (all_tiles c))
           then (True, c\<lparr>selected_tile := Some (all_tiles c ! nat idx)\<rparr>)
           else (False, c))"
    by (simp add: select_tile_from_palette_coords_def Let_def)
next
  fix j
  assume "distinct (map sid (all_tiles c)) \<and> 0 \<le> idx \<and> idx < int (length (all_tiles c))"
    and "j < length (all_tiles c)" and "sid (all_tiles c ! j) = sid (all_tiles c ! nat idx)"
  then have "distinct (map sid (all_tiles c))" "nat idx < length (all_tiles c)"
    "j < length (all_tiles c)" "sid (all_tiles c ! j) = sid (all_tiles c ! nat idx)"
    by (simp_all add: nat_less_iff)
  then show "j = nat idx" by (rule distinct_sid_nth)
qed

theorem select_tile_from_palette_coords_index_witness:
  "\<exists>ts. TileSheet_init ''tiles.png'' (Inr two_cells) 16 = Inr ts
      \<and> select_tile_from_palette_coords (Composer_init\<lparr>palette_sheets := [ts]\<rparr>) 82 12 =
          (False, Composer_init\<lparr>palette_sheets := [ts]\<rparr>)
      \<and> select_tile_from_palette_coords
            (Composer_init\<lparr>canvas_surface := Some two_cells, palette_sheets := [ts]\<rparr>) 40 12 =
          (False, Composer_init\<lparr>canvas_surface := Some two_cells, palette_sheets := [ts]\<rparr>)
      \<and> select_tile_from_palette_coords
            (Composer_init\<lparr>canvas_surface := Some two_cells, palette_sheets := [ts]\<rparr>) 82 12 =
          (True, Composer_init\<lparr>canvas_surface := Some two_cells, palette_sheets := [ts],
                                selected_tile := Some (ts_tiles ts ! 1)\<rparr>)
      \<and> select_tile_from_palette_coords
            (Composer_init\<lparr>canvas_surface := Some two_cells, palette_sheets := [ts]\<rparr>) 82 80 =
          (False, Composer_init\<lparr>canvas_surface := Some two_cells, palette_sheets := [ts]\<rparr>)
      \<and> sid (ts_tiles ts ! 0) \<noteq> sid (ts_tiles ts ! 1)"
proof -
  obtain ts where ts: "TileSheet_init ''tiles.png'' (Inr two_cells) 16 = Inr ts"
    and len: "length (ts_tiles ts) = 2"
    using TileSheet_init_ok [of 16 "''tiles.png''" two_cells]
    by (simp add: length_loop_cells two_cells_def)
  define N where "N = Composer_init\<lparr>palette_sheets := [ts]\<rparr>"
  define C where "C = Composer_init\<lparr>canvas_surface := Some two_cells, palette_sheets := [ts]\<rparr>"
  have nc: "canvas_surface N = None" by (simp add: N_def Composer_init_def)
  have cv: "canvas_surface C = Some two_cells" by (simp add: C_def)
  have all: "all_tiles C = ts_tiles ts" by (simp add: C_def all_tiles_def)
  have scroll: "palette_scroll C = 0" by (simp add: C_def Composer_init_def)
  have d: "distinct (map sid (all_tiles C))"
    using TileSheet_tiles_distinct [OF ts] by (simp add: all)
  have 0: "select_tile_from_palette_coords N 82 12 = (False, N)"
    using select_tile_from_palette_coords_index [of N 82 12 two_cells 0 0 0] nc by simp
  have left: "canvas_surface C = Some two_cells \<and> ((40::int) - sw two_cells - 10 < 0 \<or> (12::int) - 10 < 0)"
    using cv by (simp add: two_cells_def)
  have 1: "select_tile_from_palette_coords C 40 12 = (False, C)"
    using select_tile_from_palette_coords_index [of C 40 12 two_cells 0 0 0] left by blast
  have inside: "canvas_surface C = Some two_cells \<and> 0 \<le> (82::int) - sw two_cells - 10 \<and> 0 \<le> (12::int) - 10
        \<and> (1::int) = (82 - sw two_cells - 10) div PALETTE_THUMB \<and> (0::int) = (12 - 10) div PALETTE_THUMB
        \<and> (1::int) = (0 + palette_scroll C) * PALETTE_COLS + 1"
    using cv scroll by (simp add: two_cells_def PALETTE_THUMB_def PALETTE_COLS_def)
  have in_range: "distinct (map sid (all_tiles C)) \<and> 0 \<le> (1::int) \<and> (1::int) < int (length (all_tiles C))"
    using d by (simp add: all len)
  from select_tile_from_palette_coords_index [of C 82 12 two_cells 1 0 1] inside
  have sel: "select_tile_from_palette_coords C 82 12 =
          (if 0 \<le> (1::int) \<and> (1::int) < int (length (all_tiles C))
           then (True, C\<lparr>selected_tile := Some (all_tiles C ! nat 1)\<rparr>)
           else (False, C))"
    and ident: "distinct (map sid (all_tiles C)) \<and> 0 \<le> (1::int) \<and> (1::int) < int (length (all_tiles C)) \<longrightarrow>
           (\<forall>j < length (all_tiles C).
              sid (all_tiles C ! j) = sid (all_tiles C ! nat 1) \<longrightarrow> j = nat 1)"
    by blast+
  have 2: "select_tile_from_palette_coords C 82 12 = (True, C\<lparr>selected_tile := Some (ts_tiles ts ! 1)\<rparr>)"
    using sel by (simp add: all len)
  have "\<forall>j < length (all_tiles C). sid (all_tiles C ! j) = sid (all_tiles C ! nat 1) \<longrightarrow> j = nat 1"
    using ident in_range by blast
  from this [rule_format, of 0]
  have 3: "sid (ts_tiles ts ! 0) \<noteq> sid (ts_tiles ts ! 1)"
    by (auto simp: all len)
  have outside: "canvas_surface C = Some two_cells \<and> 0 \<le> (82::int) - sw two_cells - 10 \<and> 0 \<le> (80::int) - 10
        \<and> (1::int) = (82 - sw two_cells - 10) div PALETTE_THUMB \<and> (2::int) = (80 - 10) div PALETTE_THUMB
        \<and> (17::int) = (2 + palette_scroll C) * PALETTE_COLS + 1"
    using cv scroll by (simp add: two_cells_def PALETTE_THUMB_def PALETTE_COLS_def)
  from select_tile_from_palette_coords_index [of C 82 80 two_cells 1 2 17] outside
  have "select_tile_from_palette_coords C 82 80 =
          (if 0 \<le> (17::int) \<and> (17::int) < int (length (all_tiles C))
           then (True, C\<lparr>selected_tile := Some (all_tiles C ! nat 17)\<rparr>)
           else (False, C))"
    by blast
  then have 4: "select_tile_from_palette_coords C 82 80 = (False, C)"
    by (simp add: all len)
  from ts 0 1 2 3 4 show ?thesis unfolding C_def N_def by simp
qed

theorem select_without_base_counterexample:
  "palette_size (handle_events Composer_init [KEY_a [(''tiles.png'', Inr two_cells)]]) = Some 2
   \<and> ((12 - 10) div PALETTE_THUMB + 0) * PALETTE_COLS + (50 - 0 - 10) div PALETTE_THUMB = (1::int)
   \<and> select_after (handle_events Composer_init [KEY_a [(''tiles.png'', Inr two_cells)]]) 50 12
       = Some False"
proof -
  obtain ts where ts: "TileSheet_init ''tiles.png'' (Inr two_cells) 16 = Inr ts"
    and len: "length (ts_tiles ts) = 2"
    using TileSheet_init_ok [of 16 "''tiles.png''" two_cells]
    by (simp add: length_loop_cells two_cells_def)
  have run: "handle_events Composer_init [KEY_a [(''tiles.png'', Inr two_cells)]] =
               Inr (Composer_init\<lparr>palette_sheets := [ts]\<rparr>)"
    using ts by (rule add_sheet_without_base)
  have 1: "palette_size (handle_events Composer_init [KEY_a [(''tiles.png'', Inr two_cells)]]) = Some 2"
    unfolding run by (simp add: palette_size_def all_tiles_def len)
  have 2: "((12 - 10) div PALETTE_THUMB + 0) * PALETTE_COLS + (50 - 0 - 10) div PALETTE_THUMB = (1::int)"
    by (simp add: PALETTE_THUMB_def PALETTE_COLS_def)
  have 3: "select_after (handle_events Composer_init [KEY_a [(''tiles.png'', Inr two_cells)]]) 50 12
       = Some False"
    unfolding run
    by (simp add: select_after_def select_tile_from_palette_coords_def Composer_init_def)
  from 1 2 3 show ?thesis by blast
qed

subsection \<open>The first tile of a loaded sheet\<close>

text \<open>
  C10. A sheet that was constructed has at least one tile, so when every sheet of the
  palette was constructed, the number keys never raise: the key of a loaded sheet selects
  that sheet and its first tile, and any other key changes nothing.
\<close>

theorem loaded_sheets_have_first_tile:
  "(TileSheet_init path loaded t = Inr ts \<longrightarrow> ts_tiles ts \<noteq> [])
   \<and> ((\<forall>s\<in>set (palette_sheets c). \<exists>p l u. TileSheet_init p l u = Inr s) \<longrightarrow>
        handle_event c (KEY_number key) =
          Inr (if K_1 \<le> key \<and> key \<le> K_9 \<and> key - K_1 < int (length (palette_sheets c))
               then c\<lparr>palette_index := key - K_1,
                      selected_tile := Some (hd (ts_tiles (palette_sheets c ! nat (key - K_1))))\<rparr>
               else c))"
proof (intro conjI impI)
  assume "TileSheet_init path loaded t = Inr ts"
  then show "ts_tiles ts \<noteq> []" by (rule TileSheet_init_tiles_nonempty)
next
  assume "\<forall>s\<in>set (palette_sheets c). \<exists>p l u. TileSheet_init p l u = Inr s"
  then have "\<forall>s\<in>set (palette_sheets c). ts_tiles s \<noteq> []"
    using TileSheet_init_tiles_nonempty by blast
  then show "handle_event c (KEY_number key) =
          Inr (if K_1 \<le> key \<and> key \<le> K_9 \<and> key - K_1 < int (length (palette_sheets c))
               then c\<lparr>palette_index := key - K_1,
                      selected_tile := Some (hd (ts_tiles (palette_sheets c ! nat (key - K_1))))\<rparr>
               else c)"
    using on_key_number_ok [of c key] by simp
qed

theorem loaded_sheets_have_first_tile_witness:
  "\<exists>ts. TileSheet_init ''tiles.png'' (Inr two_cells) 16 = Inr ts \<and> ts_tiles ts \<noteq> []
      \<and> handle_event (Composer_init\<lparr>palette_sheets := [ts]\<rparr>) (KEY_number K_1) =
          Inr (Composer_init\<lparr>palette_sheets := [ts], palette_index := 0,
                              selected_tile := Some (hd (ts_tiles ts))\<rparr>)"
proof -
  obtain ts where ts: "TileSheet_init ''tiles.png'' (Inr two_cells) 16 = Inr ts"
    using TileSheet_init_ok [of 16 "''tiles.png''" two_cells] by simp
  note inst = loaded_sheets_have_first_tile [of "''tiles.png''" "Inr two_cells" 16 ts
      "Composer_init\<lparr>palette_sheets := [ts]\<rparr>" K_1]
  have 1: "ts_tiles ts \<noteq> []" using inst ts by blast
  have "\<forall>s\<in>set (palette_sheets (Composer_init\<lparr>palette_sheets := [ts]\<rparr>)).
          \<exists>p l u. TileSheet_init p l u = Inr s"
    using ts by auto
  with inst have "handle_event (Composer_init\<lparr>palette_sheets := [ts]\<rparr>) (KEY_number K_1) =
          Inr (if K_1 \<le> K_1 \<and> K_1 \<le> K_9 \<and> K_1 - K_1 < int (length (palette_sheets (Composer_init\<lparr>palette_sheets := [ts]\<rparr>)))
               then (Composer_init\<lparr>palette_sheets := [ts]\<rparr>)\<lparr>palette_index := K_1 - K_1,
                      selected_tile := Some (hd (ts_tiles (palette_sheets (Composer_init\<lparr>palette_sheets := [ts]\<rparr>) ! nat (K_1 - K_1))))\<rparr>
               else Composer_init\<lparr>palette_sheets := [ts]\<rparr>)"
    by blast
  then have 2: "handle_event (Composer_init\<lparr>palette_sheets := [ts]\<rparr>) (KEY_number K_1) =
          Inr (Composer_init\<lparr>palette_sheets := [ts], palette_index := 0,
                              selected_tile := Some (hd (ts_tiles ts))\<rparr>)"
    by (simp add: K_1_def K_9_def)
  from ts 1 2 show ?thesis by blast
qed

end
